theory Spec2Isabelle
  imports Main "HOL-Library.AList" "HOL-Library.Word"
begin

section \<open>JavaScript values\<close>

text \<open>
  The store of \<^verbatim>\<open>src/store/index.ts\<close> receives its payloads from the network and types
  them \<^verbatim>\<open>any\<close>, so payloads and cache entries are untyped JavaScript values. Numbers are
  the integers from \<open>- 2 ^ 53\<close> to \<open>2 ^ 53 - 1\<close> (status codes, page numbers): a double
  holds each of them exactly and \<^verbatim>\<open>String\<close> prints it in plain decimal; fractions and larger
  numbers are outside the model. \<open>JObj\<close> is an object as \<^verbatim>\<open>JSON.parse\<close> or an object literal
  makes it: the list of its own properties in insertion order (the order \<^verbatim>\<open>Object.keys\<close>
  gives for keys that are not written as array indices), with \<^verbatim>\<open>Object.prototype\<close> as its
  prototype. Reading a key of a plain object can also reach what every object inherits:
  \<open>JFunction n\<close> is the built-in function named \<open>n\<close> and \<open>JObjectPrototype\<close> is
  \<^verbatim>\<open>Object.prototype\<close> itself.
\<close>

datatype json =
    JUndefined
  | JNull
  | JBool bool
  | JNum "54 word"
  | JStr string
  | JArr "json list"
  | JObj "(string \<times> json) list"
  | JFunction string
  | JObjectPrototype

type_synonym jobject = "(string \<times> json) list"

text \<open>A rejected promise: either a thrown \<^verbatim>\<open>TypeError\<close> or the reason of a failed request.\<close>

datatype rejection = TypeError | Network json

definition nullish :: "json \<Rightarrow> bool" where
  "nullish v = (v = JUndefined \<or> v = JNull)"

text \<open>\<^verbatim>\<open>if (v)\<close> and \<^verbatim>\<open>!v\<close>: the falsy values are undefined, null, false, 0 and the empty string.\<close>

fun truthy :: "json \<Rightarrow> bool" where
  "truthy JUndefined = False"
| "truthy JNull = False"
| "truthy (JBool b) = b"
| "truthy (JNum n) = (n \<noteq> 0)"
| "truthy (JStr s) = (s \<noteq> [])"
| "truthy (JArr xs) = True"
| "truthy (JObj kvs) = True"
| "truthy (JFunction n) = True"
| "truthy JObjectPrototype = True"

text \<open>
  The own properties of an object, looked up with \<open>map_of\<close>: defining one (an existing key
  keeps its position, a new key goes last), removing one, and \<^verbatim>\<open>{...a, ...b}\<close>, which
  defines the own properties of \<open>a\<close> and then those of \<open>b\<close> on a new object.
\<close>

definition obj_set :: "jobject \<Rightarrow> string \<Rightarrow> json \<Rightarrow> jobject" where
  "obj_set obj k v = AList.update k v obj"

definition obj_delete :: "jobject \<Rightarrow> string \<Rightarrow> jobject" where
  "obj_delete obj k = AList.delete k obj"

definition obj_spread :: "jobject \<Rightarrow> jobject \<Rightarrow> jobject" where
  "obj_spread a b = fold (\<lambda>(k, v) acc. obj_set acc k v) b a"

text \<open>
  What every object inherits from \<^verbatim>\<open>Object.prototype\<close>: \<^verbatim>\<open>constructor\<close> is the function
  \<^verbatim>\<open>Object\<close>, ten more keys are methods named as their key, and \<^verbatim>\<open>__proto__\<close> is an
  accessor, treated where it is read and written.
\<close>

definition object_prototype_methods :: "string list" where
  "object_prototype_methods =
     [''__defineGetter__'', ''__defineSetter__'', ''hasOwnProperty'', ''__lookupGetter__'',
      ''__lookupSetter__'', ''isPrototypeOf'', ''propertyIsEnumerable'', ''toString'',
      ''valueOf'', ''toLocaleString'']"

definition object_prototype_get :: "string \<Rightarrow> json" where
  "object_prototype_get k =
     (if k = ''constructor'' then JFunction ''Object''
      else if k \<in> set object_prototype_methods then JFunction k
      else JUndefined)"

text \<open>
  The prototype of an object of the store: \<^verbatim>\<open>Object.prototype\<close>, or an entity (a plain
  object with the own properties given) that an assignment to the key \<^verbatim>\<open>__proto__\<close> has put
  in its place. \<open>inherited p k\<close> is what reading \<open>k\<close> finds along the chain that starts at
  \<open>p\<close>. The getter of \<^verbatim>\<open>__proto__\<close> returns the prototype of the object that is read.
\<close>

datatype prototype = Object_prototype | Entity jobject

fun inherited :: "prototype \<Rightarrow> string \<Rightarrow> json" where
  "inherited Object_prototype k =
     (if k = ''__proto__'' then JObjectPrototype else object_prototype_get k)"
| "inherited (Entity kvs) k =
     (case map_of kvs k of
        Some v \<Rightarrow> v
      | None \<Rightarrow> if k = ''__proto__'' then JObj kvs else object_prototype_get k)"

text \<open>
  \<^verbatim>\<open>v.k\<close> for a value \<open>v\<close> that is neither undefined nor null (on those the read throws,
  which the callers below check first). On a plain object the read finds an own property
  or an inherited one. The names this file reads from payloads and entries (\<^verbatim>\<open>_id\<close>,
  \<^verbatim>\<open>data\<close>, \<^verbatim>\<open>list\<close>, \<^verbatim>\<open>token\<close>, \<^verbatim>\<open>column\<close>, \<^verbatim>\<open>content\<close>, \<^verbatim>\<open>page\<close>, \<^verbatim>\<open>size\<close>, \<^verbatim>\<open>extraData\<close>) are
  not properties of a primitive value, an array, a function or \<^verbatim>\<open>Object.prototype\<close>, so
  the read gives undefined there.
\<close>

fun get :: "json \<Rightarrow> string \<Rightarrow> json" where
  "get (JObj kvs) k = (case map_of kvs k of Some v \<Rightarrow> v | None \<Rightarrow> inherited Object_prototype k)"
| "get v k = JUndefined"

text \<open>Decimal digits of a number, for \<^verbatim>\<open>String(n)\<close>.\<close>

fun show_nat :: "nat \<Rightarrow> string" where
  "show_nat n =
     (if n < 10 then [''0123456789'' ! n]
      else show_nat (n div 10) @ [''0123456789'' ! (n mod 10)])"

declare show_nat.simps [simp del]

definition show_int :: "int \<Rightarrow> string" where
  "show_int i = (if i < 0 then ''-'' @ show_nat (nat (- i)) else show_nat (nat i))"

fun join_comma :: "string list \<Rightarrow> string" where
  "join_comma [] = []"
| "join_comma [s] = s"
| "join_comma (s # t # ss) = s @ '','' @ join_comma (t # ss)"

text \<open>\<^verbatim>\<open>String(v)\<close>, which a template literal and a computed property key apply to a value.\<close>

fun to_string :: "json \<Rightarrow> string" where
  "to_string JUndefined = ''undefined''"
| "to_string JNull = ''null''"
| "to_string (JBool b) = (if b then ''true'' else ''false'')"
| "to_string (JNum n) = show_int (sint n)"
| "to_string (JStr s) = s"
| "to_string (JArr xs) = join_comma (map (\<lambda>x. if nullish x then [] else to_string x) xs)"
| "to_string (JObj kvs) = ''[object Object]''"
| "to_string (JFunction n) = ''function '' @ n @ ''() { [native code] }''"
| "to_string JObjectPrototype = ''[object Object]''"

text \<open>The own enumerable properties that \<^verbatim>\<open>{...v}\<close> copies.\<close>

fun spread :: "json \<Rightarrow> jobject" where
  "spread (JObj kvs) = kvs"
| "spread (JArr xs) = zip (map show_nat [0..<length xs]) xs"
| "spread (JStr s) = zip (map show_nat [0..<length s]) (map (\<lambda>c. JStr [c]) s)"
| "spread v = []"

section \<open>The helpers of \<^verbatim>\<open>src/helper\<close>\<close>

text \<open>
  Modelled from the spec: \<^verbatim>\<open>arrToObj\<close> of \<^verbatim>\<open>src/helper.ts\<close>, which the store imports and
  whose source is not part of the files at hand. The spec says of the caches it builds
  that "cache keys equal the entity's id" and that the list comes back "in server
  order": each element of the array is stored under its \<^verbatim>\<open>_id\<close>, in array order. Reading
  \<^verbatim>\<open>_id\<close> of an undefined or null element throws, and so does folding something that is
  not an array.
\<close>

fun arrToObj_list :: "json list \<Rightarrow> jobject \<Rightarrow> rejection + jobject" where
  "arrToObj_list [] acc = Inr acc"
| "arrToObj_list (x # xs) acc =
     (if nullish x then Inl TypeError
      else arrToObj_list xs (obj_set acc (to_string (get x ''_id'')) x))"

text \<open>Modelled from the spec: the entry point of \<^verbatim>\<open>arrToObj\<close> (\<^verbatim>\<open>src/helper.ts\<close>, not among the
  files at hand), which starts from the empty object. The result is the list of the own
  properties of the object returned.\<close>

fun arrToObj :: "json \<Rightarrow> rejection + jobject" where
  "arrToObj (JArr xs) = arrToObj_list xs []"
| "arrToObj v = Inl TypeError"

text \<open>
  Modelled from the spec: \<^verbatim>\<open>objToArr\<close> of \<^verbatim>\<open>src/helper.ts\<close>, not part of the files at hand
  either. The spec: the "cache as an ordered list (order = object key iteration order,
  effectively insertion order)".
\<close>

definition objToArr :: "jobject \<Rightarrow> json list" where
  "objToArr obj = map snd obj"

section \<open>The caches\<close>

text \<open>
  \<^verbatim>\<open>state.columns.data\<close> and \<^verbatim>\<open>state.posts.data\<close> are plain objects used as maps from ids to
  entities: their own properties and their prototype. \<open>plain\<close> is a new object with the
  own properties given, as an object literal or a helper returns it.
\<close>

record cache =
  entries :: jobject
  proto :: prototype

definition plain :: "jobject \<Rightarrow> cache" where
  "plain obj = \<lparr> entries = obj, proto = Object_prototype \<rparr>"

text \<open>\<^verbatim>\<open>data[k]\<close>: an own property, or else what the object inherits.\<close>

definition cache_get :: "cache \<Rightarrow> string \<Rightarrow> json" where
  "cache_get c k =
     (case map_of (entries c) k of Some v \<Rightarrow> v | None \<Rightarrow> inherited (proto c) k)"

text \<open>
  Whether an assignment to the key \<^verbatim>\<open>__proto__\<close> reaches the setter of \<^verbatim>\<open>Object.prototype\<close>:
  neither the object nor the entity it inherits from has an own property of that name.
\<close>

definition reaches_setter :: "cache \<Rightarrow> bool" where
  "reaches_setter c =
     (''__proto__'' \<notin> set (map fst (entries c)) \<and>
      (case proto c of
         Object_prototype \<Rightarrow> True
       | Entity kvs \<Rightarrow> ''__proto__'' \<notin> set (map fst kvs)))"

text \<open>
  \<^verbatim>\<open>data[v._id] = v\<close>, the one form in which the store writes into a cache; \<open>v\<close> is
  neither undefined nor null. The assignment writes the own property of that key,
  creating it last if there is none. Only under the key \<^verbatim>\<open>__proto__\<close>, when the setter is
  reached, it replaces the prototype by \<open>v\<close> instead; \<open>v\<close> is a plain object then, since
  its \<^verbatim>\<open>_id\<close> prints as \<^verbatim>\<open>__proto__\<close>.
\<close>

definition assign_by_id :: "cache \<Rightarrow> json \<Rightarrow> cache" where
  "assign_by_id c v =
     (if to_string (get v ''_id'') = ''__proto__'' \<and> reaches_setter c then
        (case v of JObj kvs \<Rightarrow> c\<lparr>proto := Entity kvs\<rparr> | _ \<Rightarrow> c)
      else c\<lparr>entries := obj_set (entries c) (to_string (get v ''_id'')) v\<rparr>)"

text \<open>\<^verbatim>\<open>delete data[k]\<close> removes an own property.\<close>

definition cache_delete :: "cache \<Rightarrow> string \<Rightarrow> cache" where
  "cache_delete c k = c\<lparr>entries := obj_delete (entries c) k\<rparr>"

section \<open>The store and its surroundings\<close>

text \<open>\<^verbatim>\<open>GlobalDataProps\<close> of the second version of the store (the one with \<^verbatim>\<open>isLoaded\<close> and
  \<^verbatim>\<open>loadedColumns\<close>); \<^verbatim>\<open>columns.data\<close> is \<open>columns_data\<close> and so on.\<close>

record store_state =
  token :: json
  error :: json
  loading :: json
  columns_data :: cache
  columns_isLoaded :: bool
  posts_data :: cache
  posts_loadedColumns :: "json list"
  user :: json

text \<open>A request as the server sees it. \<open>req_auth\<close> is the \<^verbatim>\<open>Authorization\<close> default header
  of the HTTP client at the time of the call.\<close>

record request =
  req_url :: string
  req_method :: string
  req_data :: json
  req_auth :: "string option"

text \<open>The names \<^verbatim>\<open>commit\<close> is called with.\<close>

datatype mutation =
    MCreatePost | MFetchColumns | MFetchColumn | MFetchPosts | MFetchPost
  | MSetLoading | MSetError | MLogin | MFetchCurrentUser | MSignOut
  | MUpdatePost | MDeletePost

text \<open>
  Everything the store reads and writes: its state, the browser's \<^verbatim>\<open>localStorage\<close> and
  \<^verbatim>\<open>axios.defaults.headers.common\<close>. Two logs are kept beside them so that theorems can
  speak of what was done: \<open>calls\<close> lists the requests issued, \<open>commits\<close> the mutations
  committed with their payloads, both oldest first.
\<close>

record world =
  state :: store_state
  localStorage :: "string \<rightharpoonup> string"
  headers_common :: "string \<rightharpoonup> string"
  calls :: "request list"
  commits :: "(mutation \<times> json) list"

text \<open>
  The remote API: given the requests issued so far and a new request, it either fails
  with a reason (\<open>Inl\<close>) or answers with a response body (\<open>Inr\<close>). Every theorem below
  holds for every such server.
\<close>

type_synonym network = "request list \<Rightarrow> request \<Rightarrow> json + json"

text \<open>The state the store is created with; \<^verbatim>\<open>localStorage.getItem('token') || ''\<close>.\<close>

definition initial_state :: "(string \<rightharpoonup> string) \<Rightarrow> store_state" where
  "initial_state storage =
     \<lparr> token = (case storage ''token'' of None \<Rightarrow> JStr '''' | Some t \<Rightarrow> JStr t),
       error = JObj [(''status'', JBool False)],
       loading = JBool False,
       columns_data = plain [],
       columns_isLoaded = False,
       posts_data = plain [],
       posts_loadedColumns = [],
       user = JObj [(''isLogin'', JBool False)] \<rparr>"

definition initial_world :: "(string \<rightharpoonup> string) \<Rightarrow> world" where
  "initial_world storage =
     \<lparr> state = initial_state storage, localStorage = storage,
       headers_common = Map.empty, calls = [], commits = [] \<rparr>"

section \<open>Mutations\<close>

text \<open>
  A mutation either throws before it has written anything (\<open>Inl\<close>) or returns the
  world it leaves (\<open>Inr\<close>). In each mutation of the source every property read that can
  throw comes before the first assignment.
\<close>

definition createPost_mutation :: "json \<Rightarrow> world \<Rightarrow> rejection + world" where
  "createPost_mutation newPost w =
     (if nullish newPost then Inl TypeError
      else Inr (w\<lparr>state := (state w)\<lparr>posts_data :=
             assign_by_id (posts_data (state w)) newPost\<rparr>\<rparr>))"

definition fetchColumns_mutation :: "json \<Rightarrow> world \<Rightarrow> rejection + world" where
  "fetchColumns_mutation rawData w =
     (if nullish rawData then Inl TypeError
      else if nullish (get rawData ''data'') then Inl TypeError
      else case arrToObj (get (get rawData ''data'') ''list'') of
             Inl e \<Rightarrow> Inl e
           | Inr obj \<Rightarrow>
               Inr (w\<lparr>state := (state w)\<lparr>columns_data := plain obj,
                                         columns_isLoaded := True\<rparr>\<rparr>))"

definition fetchColumn_mutation :: "json \<Rightarrow> world \<Rightarrow> rejection + world" where
  "fetchColumn_mutation rawData w =
     (if nullish rawData then Inl TypeError
      else if nullish (get rawData ''data'') then Inl TypeError
      else Inr (w\<lparr>state := (state w)\<lparr>columns_data :=
             assign_by_id (columns_data (state w)) (get rawData ''data'')\<rparr>\<rparr>))"

text \<open>The parameter is destructured: \<^verbatim>\<open>{ data: rawData, extraData: columnId }\<close>.\<close>

definition fetchPosts_mutation :: "json \<Rightarrow> world \<Rightarrow> rejection + world" where
  "fetchPosts_mutation payload w =
     (if nullish payload then Inl TypeError
      else let rawData = get payload ''data''; columnId = get payload ''extraData'' in
        if nullish rawData then Inl TypeError
        else if nullish (get rawData ''data'') then Inl TypeError
        else case arrToObj (get (get rawData ''data'') ''list'') of
               Inl e \<Rightarrow> Inl e
             | Inr obj \<Rightarrow>
                 Inr (w\<lparr>state := (state w)\<lparr>
                   posts_data := plain (obj_spread (entries (posts_data (state w))) obj),
                   posts_loadedColumns := posts_loadedColumns (state w) @ [columnId]\<rparr>\<rparr>))"

definition fetchPost_mutation :: "json \<Rightarrow> world \<Rightarrow> rejection + world" where
  "fetchPost_mutation rawData w =
     (if nullish rawData then Inl TypeError
      else if nullish (get rawData ''data'') then Inl TypeError
      else Inr (w\<lparr>state := (state w)\<lparr>posts_data :=
             assign_by_id (posts_data (state w)) (get rawData ''data'')\<rparr>\<rparr>))"

definition setLoading :: "json \<Rightarrow> world \<Rightarrow> rejection + world" where
  "setLoading status w = Inr (w\<lparr>state := (state w)\<lparr>loading := status\<rparr>\<rparr>)"

definition setError :: "json \<Rightarrow> world \<Rightarrow> rejection + world" where
  "setError e w = Inr (w\<lparr>state := (state w)\<lparr>error := e\<rparr>\<rparr>)"

text \<open>\<^verbatim>\<open>const { token } = rawData.data\<close> throws when \<^verbatim>\<open>rawData.data\<close> is undefined or null.\<close>

definition login_mutation :: "json \<Rightarrow> world \<Rightarrow> rejection + world" where
  "login_mutation rawData w =
     (if nullish rawData then Inl TypeError
      else if nullish (get rawData ''data'') then Inl TypeError
      else let tok = get (get rawData ''data'') ''token'' in
        Inr (w\<lparr>state := (state w)\<lparr>token := tok\<rparr>,
               localStorage := (localStorage w)(''token'' \<mapsto> to_string tok),
               headers_common :=
                 (headers_common w)(''Authorization'' \<mapsto> ''Bearer '' @ to_string tok)\<rparr>))"

definition fetchCurrentUser_mutation :: "json \<Rightarrow> world \<Rightarrow> rejection + world" where
  "fetchCurrentUser_mutation rawData w =
     (if nullish rawData then Inl TypeError
      else Inr (w\<lparr>state := (state w)\<lparr>user :=
             JObj (obj_spread [(''isLogin'', JBool True)] (spread (get rawData ''data'')))\<rparr>\<rparr>))"

definition signOut :: "world \<Rightarrow> world" where
  "signOut w =
     w\<lparr>state := (state w)\<lparr>token := JStr '''', user := JObj [(''isLogin'', JBool False)]\<rparr>,
       localStorage := (localStorage w)(''token'' := None),
       headers_common := (headers_common w)(''Authorization'' := None)\<rparr>"

text \<open>\<^verbatim>\<open>updatePost(state, { data })\<close> and \<^verbatim>\<open>deletePost(state, { data })\<close> destructure too.\<close>

definition updatePost_mutation :: "json \<Rightarrow> world \<Rightarrow> rejection + world" where
  "updatePost_mutation payload w =
     (if nullish payload then Inl TypeError
      else if nullish (get payload ''data'') then Inl TypeError
      else Inr (w\<lparr>state := (state w)\<lparr>posts_data :=
             assign_by_id (posts_data (state w)) (get payload ''data'')\<rparr>\<rparr>))"

definition deletePost_mutation :: "json \<Rightarrow> world \<Rightarrow> rejection + world" where
  "deletePost_mutation payload w =
     (if nullish payload then Inl TypeError
      else if nullish (get payload ''data'') then Inl TypeError
      else Inr (w\<lparr>state := (state w)\<lparr>posts_data :=
             cache_delete (posts_data (state w))
               (to_string (get (get payload ''data'') ''_id''))\<rparr>\<rparr>))"

fun mutate :: "mutation \<Rightarrow> json \<Rightarrow> world \<Rightarrow> rejection + world" where
  "mutate MCreatePost p w = createPost_mutation p w"
| "mutate MFetchColumns p w = fetchColumns_mutation p w"
| "mutate MFetchColumn p w = fetchColumn_mutation p w"
| "mutate MFetchPosts p w = fetchPosts_mutation p w"
| "mutate MFetchPost p w = fetchPost_mutation p w"
| "mutate MSetLoading p w = setLoading p w"
| "mutate MSetError p w = setError p w"
| "mutate MLogin p w = login_mutation p w"
| "mutate MFetchCurrentUser p w = fetchCurrentUser_mutation p w"
| "mutate MSignOut p w = Inr (signOut w)"
| "mutate MUpdatePost p w = updatePost_mutation p w"
| "mutate MDeletePost p w = deletePost_mutation p w"

text \<open>\<^verbatim>\<open>commit(mutationName, payload)\<close>: the commit is logged, then the mutation runs. A
  mutation that throws leaves the world as it was, and the exception goes to the caller.\<close>

definition commit :: "mutation \<Rightarrow> json \<Rightarrow> world \<Rightarrow> rejection option \<times> world" where
  "commit m p w =
     (let w1 = w\<lparr>commits := commits w @ [(m, p)]\<rparr> in
      case mutate m p w1 of
        Inl e \<Rightarrow> (Some e, w1)
      | Inr w2 \<Rightarrow> (None, w2))"

section \<open>Actions\<close>

text \<open>\<^verbatim>\<open>axios(url, config)\<close>: the request is issued with the current default header and
  logged; the server's answer is the response body or the reason of the failure.\<close>

definition request_of :: "string \<Rightarrow> string \<times> json \<Rightarrow> world \<Rightarrow> request" where
  "request_of u config w =
     \<lparr> req_url = u, req_method = fst config, req_data = snd config,
       req_auth = headers_common w ''Authorization'' \<rparr>"

definition axios :: "network \<Rightarrow> string \<Rightarrow> string \<times> json \<Rightarrow> world \<Rightarrow> (json + json) \<times> world" where
  "axios net u config w =
     (let req = request_of u config w
      in (net (calls w) req, w\<lparr>calls := calls w @ [req]\<rparr>))"

text \<open>
  \<^verbatim>\<open>asyncAndCommit(url, mutationName, commit, config, extraData)\<close>. The result is what the
  returned promise settles to: \<open>Inl\<close> a rejection, \<open>Inr\<close> the value it resolves to. An
  absent \<^verbatim>\<open>extraData\<close> is undefined; the default \<^verbatim>\<open>config\<close> is \<open>(''get'', JUndefined)\<close>.
\<close>

definition asyncAndCommit ::
  "network \<Rightarrow> string \<Rightarrow> mutation \<Rightarrow> string \<times> json \<Rightarrow> json \<Rightarrow> world \<Rightarrow> (rejection + json) \<times> world" where
  "asyncAndCommit net u mutationName config extraData w =
     (case axios net u config w of
        (Inl reason, w1) \<Rightarrow> (Inl (Network reason), w1)
      | (Inr data, w1) \<Rightarrow>
          (case (if truthy extraData
                 then commit mutationName (JObj [(''data'', data), (''extraData'', extraData)]) w1
                 else commit mutationName data w1) of
             (Some e, w2) \<Rightarrow> (Inl e, w2)
           | (None, w2) \<Rightarrow> (Inr data, w2)))"

text \<open>
  The actions. Ids are strings, as the interfaces and the getters declare them, and
  \<^verbatim>\<open>updatePost\<close> takes the two fields of its argument \<^verbatim>\<open>{ id, payload }\<close>. An action whose
  guard skips the request has no \<^verbatim>\<open>return\<close>, so its dispatch resolves to undefined.
\<close>

definition fetchColumns_action :: "network \<Rightarrow> json \<Rightarrow> world \<Rightarrow> (rejection + json) \<times> world" where
  "fetchColumns_action net data w =
     (if \<not> columns_isLoaded (state w) then
        (if nullish data then (Inl TypeError, w)
         else asyncAndCommit net
                (''/columns?currentPage='' @ to_string (get data ''page'')
                   @ ''&pageSize='' @ to_string (get data ''size''))
                MFetchColumns (''get'', JUndefined) JUndefined w)
      else (Inr JUndefined, w))"

definition fetchColumn_action :: "network \<Rightarrow> string \<Rightarrow> world \<Rightarrow> (rejection + json) \<times> world" where
  "fetchColumn_action net cid w =
     (if \<not> truthy (cache_get (columns_data (state w)) cid) then
        asyncAndCommit net (''/columns/'' @ cid) MFetchColumn (''get'', JUndefined) JUndefined w
      else (Inr JUndefined, w))"

definition fetchPosts_action :: "network \<Rightarrow> string \<Rightarrow> world \<Rightarrow> (rejection + json) \<times> world" where
  "fetchPosts_action net cid w =
     (if JStr cid \<notin> set (posts_loadedColumns (state w)) then
        asyncAndCommit net (''/columns/'' @ cid @ ''/posts'') MFetchPosts
          (''get'', JUndefined) (JStr cid) w
      else (Inr JUndefined, w))"

definition fetchPost_action :: "network \<Rightarrow> string \<Rightarrow> world \<Rightarrow> (rejection + json) \<times> world" where
  "fetchPost_action net pid w =
     (let currentPost = cache_get (posts_data (state w)) pid in
      if \<not> truthy currentPost \<or> \<not> truthy (get currentPost ''content'') then
        asyncAndCommit net (''/posts/'' @ pid) MFetchPost (''get'', JUndefined) JUndefined w
      else (Inr (JObj [(''data'', currentPost)]), w))"

definition fetchCurrentUser_action :: "network \<Rightarrow> world \<Rightarrow> (rejection + json) \<times> world" where
  "fetchCurrentUser_action net w =
     asyncAndCommit net ''/user/current'' MFetchCurrentUser (''get'', JUndefined) JUndefined w"

definition login_action :: "network \<Rightarrow> json \<Rightarrow> world \<Rightarrow> (rejection + json) \<times> world" where
  "login_action net payload w =
     asyncAndCommit net ''/user/login'' MLogin (''post'', payload) JUndefined w"

text \<open>\<^verbatim>\<open>dispatch('login', loginData).then(() => dispatch('fetchCurrentUser'))\<close>: the
  callback runs only when the first promise is fulfilled.\<close>

definition loginAndFetch :: "network \<Rightarrow> json \<Rightarrow> world \<Rightarrow> (rejection + json) \<times> world" where
  "loginAndFetch net loginData w =
     (case login_action net loginData w of
        (Inl e, w1) \<Rightarrow> (Inl e, w1)
      | (Inr r, w1) \<Rightarrow> fetchCurrentUser_action net w1)"

definition createPost_action :: "network \<Rightarrow> json \<Rightarrow> world \<Rightarrow> (rejection + json) \<times> world" where
  "createPost_action net payload w =
     asyncAndCommit net ''/posts'' MCreatePost (''post'', payload) JUndefined w"

definition updatePost_action :: "network \<Rightarrow> string \<Rightarrow> json \<Rightarrow> world \<Rightarrow> (rejection + json) \<times> world" where
  "updatePost_action net pid payload w =
     asyncAndCommit net (''/posts/'' @ pid) MUpdatePost (''patch'', payload) JUndefined w"

definition deletePost_action :: "network \<Rightarrow> string \<Rightarrow> world \<Rightarrow> (rejection + json) \<times> world" where
  "deletePost_action net pid w =
     asyncAndCommit net (''/posts/'' @ pid) MDeletePost (''delete'', JUndefined) JUndefined w"

datatype action =
    FetchColumns json
  | FetchColumn string
  | FetchPosts string
  | FetchPost string
  | FetchCurrentUser
  | Login json
  | LoginAndFetch json
  | CreatePost json
  | UpdatePost string json
  | DeletePost string

text \<open>\<^verbatim>\<open>store.dispatch(name, argument)\<close>, awaited: the settled result and the world then.\<close>

fun dispatch :: "network \<Rightarrow> action \<Rightarrow> world \<Rightarrow> (rejection + json) \<times> world" where
  "dispatch net (FetchColumns d) w = fetchColumns_action net d w"
| "dispatch net (FetchColumn cid) w = fetchColumn_action net cid w"
| "dispatch net (FetchPosts cid) w = fetchPosts_action net cid w"
| "dispatch net (FetchPost pid) w = fetchPost_action net pid w"
| "dispatch net FetchCurrentUser w = fetchCurrentUser_action net w"
| "dispatch net (Login d) w = login_action net d w"
| "dispatch net (LoginAndFetch d) w = loginAndFetch net d w"
| "dispatch net (CreatePost d) w = createPost_action net d w"
| "dispatch net (UpdatePost pid d) w = updatePost_action net pid d w"
| "dispatch net (DeletePost pid) w = deletePost_action net pid w"

section \<open>Getters\<close>

definition getColumns :: "store_state \<Rightarrow> json list" where
  "getColumns s = objToArr (entries (columns_data s))"

definition getColumnById :: "store_state \<Rightarrow> string \<Rightarrow> json" where
  "getColumnById s cid = cache_get (columns_data s) cid"

text \<open>\<^verbatim>\<open>objToArr(state.posts.data).filter(post => post.column === cid)\<close>, over the own
  properties of the cache. Reading \<^verbatim>\<open>column\<close> of an undefined or null entry throws.\<close>

definition getPostsByCid :: "store_state \<Rightarrow> string \<Rightarrow> rejection + json list" where
  "getPostsByCid s cid =
     (if list_ex nullish (objToArr (entries (posts_data s))) then Inl TypeError
      else Inr (filter (\<lambda>post. get post ''column'' = JStr cid)
                  (objToArr (entries (posts_data s)))))"

definition getCurrentPost :: "store_state \<Rightarrow> string \<Rightarrow> json" where
  "getCurrentPost s pid = cache_get (posts_data s) pid"

section \<open>Predicates of the statements\<close>

text \<open>Two worlds with the same store: the state, the durable storage, the default headers
  and the log of commits agree; only the log of requests may differ.\<close>

definition same_store :: "world \<Rightarrow> world \<Rightarrow> bool" where
  "same_store w w' =
     (state w' = state w \<and> localStorage w' = localStorage w \<and>
      headers_common w' = headers_common w \<and> commits w' = commits w)"

definition keys_are_ids :: "jobject \<Rightarrow> bool" where
  "keys_are_ids cache = list_all (\<lambda>(k, v). get v ''_id'' = JStr k) cache"

definition has_string_id :: "json \<Rightarrow> bool" where
  "has_string_id v = (case get v ''_id'' of JStr i \<Rightarrow> True | _ \<Rightarrow> False)"

definition entity_list :: "json \<Rightarrow> bool" where
  "entity_list rawData =
     (case get (get rawData ''data'') ''list'' of
        JArr xs \<Rightarrow> list_all has_string_id xs
      | _ \<Rightarrow> False)"

fun server_shaped :: "mutation \<Rightarrow> json \<Rightarrow> bool" where
  "server_shaped MFetchColumns p = entity_list p"
| "server_shaped MFetchPosts p = entity_list (get p ''data'')"
| "server_shaped MFetchColumn p = has_string_id (get p ''data'')"
| "server_shaped MFetchPost p = has_string_id (get p ''data'')"
| "server_shaped MUpdatePost p = has_string_id (get p ''data'')"
| "server_shaped MCreatePost p = (has_string_id (get p ''data'') \<and> get p ''_id'' = JUndefined)"
| "server_shaped m p = True"

section \<open>Example data\<close>

text \<open>
  A small server and the worlds some dispatches lead to, for evaluating the model on
  concrete inputs. The response envelope is \<^verbatim>\<open>{ code, msg, data }\<close>. \<open>demo_server\<close>
  knows one column with two posts, a second column with one post, a column whose id is
  \<^verbatim>\<open>constructor\<close>, and accepts one token; \<open>login_only_server\<close> answers the login and fails every other request;
  \<open>offline_server\<close> fails every request.
\<close>

definition envelope :: "json \<Rightarrow> json" where
  "envelope d = JObj [(''code'', JNum 0), (''msg'', JStr ''''), (''data'', d)]"

definition column_c1 :: json where
  "column_c1 = JObj [(''_id'', JStr ''c1''), (''title'', JStr ''news''), (''description'', JStr ''d'')]"

definition column_constructor :: json where
  "column_constructor =
     JObj [(''_id'', JStr ''constructor''), (''title'', JStr ''odd''), (''description'', JStr ''d'')]"

definition post_p1_stub :: json where
  "post_p1_stub = JObj [(''_id'', JStr ''p1''), (''title'', JStr ''t''), (''column'', JStr ''c1'')]"

definition post_p1 :: json where
  "post_p1 = JObj [(''_id'', JStr ''p1''), (''title'', JStr ''t''), (''content'', JStr ''text''),
                   (''column'', JStr ''c1'')]"

definition post_p2 :: json where
  "post_p2 = JObj [(''_id'', JStr ''p2''), (''title'', JStr ''u''), (''column'', JStr ''c1'')]"

definition post_p3 :: json where
  "post_p3 = JObj [(''_id'', JStr ''p3''), (''title'', JStr ''v''), (''column'', JStr ''c2'')]"

definition body_c1_posts :: json where
  "body_c1_posts = envelope (JObj [(''list'', JArr [post_p1_stub, post_p2])])"

definition body_c2_posts :: json where
  "body_c2_posts = envelope (JObj [(''list'', JArr [post_p3])])"

definition draft :: json where
  "draft = JObj [(''title'', JStr ''t''), (''content'', JStr ''text''), (''column'', JStr ''c1'')]"

definition credentials :: json where
  "credentials = JObj [(''email'', JStr ''a@b.c''), (''password'', JStr ''pw'')]"

definition demo_server :: network where
  "demo_server history req =
     (if req_url req = ''/user/login'' then Inr (envelope (JObj [(''token'', JStr ''t1'')]))
      else if req_url req = ''/user/current'' then
        (if req_auth req = Some ''Bearer t1''
         then Inr (envelope (JObj [(''_id'', JStr ''u1''), (''nickName'', JStr ''ann'')]))
         else Inl (JStr ''Unauthorized''))
      else if req_url req = ''/columns/c1'' then Inr (envelope column_c1)
      else if req_url req = ''/columns/constructor'' then Inr (envelope column_constructor)
      else if req_url req = ''/columns/c1/posts'' then
        Inr (envelope (JObj [(''list'', JArr [post_p1_stub, post_p2])]))
      else if req_url req = ''/columns/c2/posts'' then
        Inr (envelope (JObj [(''list'', JArr [post_p3])]))
      else if req_url req = ''/posts/p1'' then Inr (envelope post_p1)
      else if req_url req = ''/posts'' then Inr (envelope post_p1)
      else Inl (JStr ''Network Error''))"

definition login_only_server :: network where
  "login_only_server history req =
     (if req_url req = ''/user/login'' then Inr (envelope (JObj [(''token'', JStr ''t1'')]))
      else Inl (JStr ''Network Error''))"

definition offline_server :: network where
  "offline_server history req = Inl (JStr ''Network Error'')"

definition world0 :: world where
  "world0 = initial_world Map.empty"

definition world_c1 :: world where
  "world_c1 = snd (dispatch demo_server (FetchColumn ''c1'') world0)"

definition world_a :: world where
  "world_a = snd (dispatch demo_server (FetchPosts ''c1'') world0)"

definition world_ab :: world where
  "world_ab = snd (dispatch demo_server (FetchPosts ''c2'') world_a)"

definition world_p1 :: world where
  "world_p1 = snd (dispatch demo_server (FetchPost ''p1'') world0)"

definition world_loaded :: world where
  "world_loaded = world0\<lparr>state := (state world0)\<lparr>columns_isLoaded := True\<rparr>\<rparr>"

definition first_page :: json where
  "first_page = JObj [(''page'', JNum 1), (''size'', JNum 5)]"

definition world_in :: world where
  "world_in = snd (commit MLogin (envelope (JObj [(''token'', JStr ''t1'')])) world0)"

definition world_half :: world where
  "world_half = snd (dispatch login_only_server (LoginAndFetch credentials) world0)"

definition world_logged :: world where
  "world_logged = snd (dispatch login_only_server (Login credentials) world0)"

definition world_offline :: world where
  "world_offline = snd (dispatch offline_server (Login credentials) world0)"

definition world_logged_in :: world where
  "world_logged_in = snd (dispatch demo_server (Login credentials) world0)"

section \<open>Auxiliary facts\<close>

lemmas mutation_defs =
  createPost_mutation_def fetchColumns_mutation_def fetchColumn_mutation_def
  fetchPosts_mutation_def fetchPost_mutation_def setLoading_def setError_def login_mutation_def
  fetchCurrentUser_mutation_def signOut_def updatePost_mutation_def deletePost_mutation_def

lemmas action_defs =
  fetchColumns_action_def fetchColumn_action_def fetchPosts_action_def fetchPost_action_def
  fetchCurrentUser_action_def login_action_def createPost_action_def updatePost_action_def
  deletePost_action_def

lemmas example_defs =
  envelope_def column_c1_def column_constructor_def post_p1_stub_def post_p1_def post_p2_def post_p3_def
  demo_server_def login_only_server_def world0_def credentials_def
  initial_world_def initial_state_def object_prototype_get_def object_prototype_methods_def

lemmas body_defs = body_c1_posts_def body_c2_posts_def draft_def

lemmas world_defs = world_c1_def world_a_def world_ab_def world_in_def offline_server_def
  world_p1_def world_loaded_def first_page_def
  world_half_def world_logged_def world_offline_def world_logged_in_def

lemmas run_defs =
  action_defs loginAndFetch_def asyncAndCommit_def axios_def request_of_def commit_def
  mutation_defs obj_set_def obj_delete_def obj_spread_def nullish_def Let_def
  plain_def cache_get_def assign_by_id_def reaches_setter_def cache_delete_def
  object_prototype_get_def object_prototype_methods_def

subsection \<open>What a commit and a request leave behind\<close>

text \<open>Mutations do not touch the two logs, they throw nothing but a \<^verbatim>\<open>TypeError\<close>, and
  \<open>asyncAndCommit\<close> logs exactly one request whatever comes back.\<close>

lemma mutate_logs: "mutate m p w = Inr w' \<Longrightarrow> calls w' = calls w \<and> commits w' = commits w"
  by (cases m) (auto simp: mutation_defs Let_def split: if_splits sum.splits)

lemma arrToObj_list_TypeError: "arrToObj_list xs acc = Inl e \<Longrightarrow> e = TypeError"
  by (induction xs arbitrary: acc) (auto split: if_splits)

lemma arrToObj_TypeError: "arrToObj v = Inl e \<Longrightarrow> e = TypeError"
  by (cases v) (auto dest: arrToObj_list_TypeError)

lemma mutate_TypeError: "mutate m p w = Inl e \<Longrightarrow> e = TypeError"
  by (cases m) (auto simp: mutation_defs Let_def split: if_splits sum.splits dest: arrToObj_TypeError)

lemma commit_logs:
  "commit m p w = (r, w') \<Longrightarrow> calls w' = calls w \<and> commits w' = commits w @ [(m, p)]"
  by (auto simp: commit_def Let_def split: sum.splits dest: mutate_logs)

lemma commit_TypeError: "commit m p w = (Some e, w') \<Longrightarrow> e = TypeError"
  by (auto simp: commit_def Let_def split: sum.splits dest: mutate_TypeError)

lemma asyncAndCommit_calls:
  "asyncAndCommit net u m cfg x w = (r, w') \<Longrightarrow> calls w' = calls w @ [request_of u cfg w]"
  by (auto simp: asyncAndCommit_def axios_def Let_def split: sum.splits prod.splits option.splits if_splits
      dest!: commit_logs)

lemma asyncAndCommit_Network:
  "asyncAndCommit net u m cfg x w = (Inl (Network e), w') \<Longrightarrow>
     net (calls w) (request_of u cfg w) = Inl e \<and> w' = w\<lparr>calls := calls w @ [request_of u cfg w]\<rparr>"
  by (auto simp: asyncAndCommit_def axios_def Let_def split: sum.splits prod.splits option.splits if_splits
      dest!: commit_TypeError)

lemma asyncAndCommit_failed:
  "net (calls w) (request_of u cfg w) = Inl reason \<Longrightarrow>
     asyncAndCommit net u m cfg x w =
       (Inl (Network reason), w\<lparr>calls := calls w @ [request_of u cfg w]\<rparr>)"
  by (simp add: asyncAndCommit_def axios_def Let_def)

lemma asyncAndCommit_Inr:
  "asyncAndCommit net u m cfg x w = (Inr v, w') \<Longrightarrow> net (calls w) (request_of u cfg w) = Inr v"
  by (auto simp: asyncAndCommit_def axios_def Let_def split: sum.splits prod.splits option.splits if_splits)

lemma asyncAndCommit_success:
  assumes "asyncAndCommit net u m cfg x w = (Inr body, w')"
  shows "net (calls w) (request_of u cfg w) = Inr body \<and>
         mutate m (if truthy x then JObj [(''data'', body), (''extraData'', x)] else body)
           (w\<lparr>calls := calls w @ [request_of u cfg w],
              commits := commits w @
                [(m, if truthy x then JObj [(''data'', body), (''extraData'', x)] else body)]\<rparr>)
           = Inr w'"
  using assms
  by (auto simp: asyncAndCommit_def axios_def commit_def Let_def
      split: sum.splits prod.splits option.splits if_splits)

subsection \<open>Objects\<close>

lemma map_of_obj_set: "map_of (obj_set obj k v) = (map_of obj)(k \<mapsto> v)"
  by (simp add: obj_set_def update_conv')

lemma keys_obj_set_own:
  "k \<in> fst ` set obj \<Longrightarrow> map fst (obj_set obj k v) = map fst obj"
  by (simp add: obj_set_def update_keys)

lemma inherited_not_string: "inherited Object_prototype k \<noteq> JStr s"
  by (simp add: object_prototype_get_def)

lemma get_JStr_object: "get x k = JStr s \<Longrightarrow> truthy x \<and> \<not> nullish x \<and> (\<exists>kvs. x = JObj kvs)"
  by (cases x) (simp_all add: nullish_def)

lemma get_own: "map_of kvs k = Some v \<Longrightarrow> get (JObj kvs) k = v"
  by simp

lemma obj_spread_Cons: "obj_spread a ((k, v) # b) = obj_spread (obj_set a k v) b"
  by (simp add: obj_spread_def)

lemma map_of_obj_spread: "map_of (obj_spread a b) = map_of a ++ map_of (rev b)"
proof (induction b arbitrary: a)
  case Nil
  then show ?case by (simp add: obj_spread_def)
next
  case (Cons kv b)
  obtain k v where kv: "kv = (k, v)" by (cases kv)
  have "map_of (obj_spread a (kv # b)) = map_of (obj_set a k v) ++ map_of (rev b)"
    by (simp only: kv obj_spread_Cons Cons.IH)
  also have "\<dots> = (map_of a)(k \<mapsto> v) ++ map_of (rev b)"
    by (simp only: map_of_obj_set)
  also have "\<dots> = map_of a ++ map_of (rev (kv # b))"
    by (rule ext) (simp add: kv map_add_def split: option.splits)
  finally show ?case .
qed

lemma distinct_obj_spread:
  "distinct (map fst a) \<Longrightarrow> distinct (map fst (obj_spread a b))"
proof (induction b arbitrary: a)
  case Nil
  then show ?case by (simp add: obj_spread_def)
next
  case (Cons kv b)
  then show ?case
    by (cases kv) (simp add: obj_spread_Cons obj_set_def distinct_update)
qed

lemma arrToObj_list_Inr:
  "arrToObj_list xs acc = Inr obj \<Longrightarrow>
     obj = obj_spread acc (map (\<lambda>x. (to_string (get x ''_id''), x)) xs)"
  by (induction xs arbitrary: acc) (auto simp: obj_spread_def split: if_splits)

lemma map_of_distinct_rev:
  "distinct (map fst xs) \<Longrightarrow> map_of (rev xs) = map_of xs"
  by (rule map_of_inject_set [THEN iffD2]) (simp_all add: rev_map [symmetric])

lemma map_of_obj_spread_distinct:
  assumes "distinct (map fst b)"
  shows "map_of (obj_spread a b) k = (if k \<in> fst ` set b then map_of b k else map_of a k)"
proof (cases "map_of b k")
  case None
  then have "k \<notin> fst ` set b" by (simp add: map_of_eq_None_iff)
  with assms None show ?thesis
    by (simp add: map_of_obj_spread map_of_distinct_rev map_add_def)
next
  case (Some v)
  then have "k \<in> fst ` set b"
    by (metis map_of_eq_None_iff option.distinct(1))
  with assms Some show ?thesis
    by (simp add: map_of_obj_spread map_of_distinct_rev map_add_def)
qed

lemma arrToObj_Inr:
  assumes "arrToObj v = Inr obj" and "v = JArr xs"
  shows "distinct (map fst obj) \<and> fst ` set obj = (\<lambda>x. to_string (get x ''_id'')) ` set xs \<and>
         (distinct (map (\<lambda>x. to_string (get x ''_id'')) xs) \<longrightarrow>
            (\<forall>x \<in> set xs. map_of obj (to_string (get x ''_id'')) = Some x))"
proof -
  let ?kv = "map (\<lambda>x. (to_string (get x ''_id''), x)) xs"
  from assms have o: "obj = obj_spread [] ?kv" by (auto dest: arrToObj_list_Inr)
  have d: "distinct (map fst obj)" unfolding o by (rule distinct_obj_spread) simp
  have "dom (map_of obj) = dom (map_of (rev ?kv))"
    unfolding o by (simp add: map_of_obj_spread)
  then have keys: "fst ` set obj = (\<lambda>x. to_string (get x ''_id'')) ` set xs"
    by (simp add: dom_map_of_conv_image_fst image_image)
  have "map_of obj (to_string (get x ''_id'')) = Some x"
    if "distinct (map (\<lambda>x. to_string (get x ''_id'')) xs)" and "x \<in> set xs" for x
  proof -
    from that(1) have dk: "distinct (map fst ?kv)" by (simp add: comp_def)
    have "(to_string (get x ''_id''), x) \<in> set ?kv" using that(2) by auto
    then have "map_of ?kv (to_string (get x ''_id'')) = Some x"
      using dk by (rule map_of_is_SomeI [rotated])
    then show ?thesis
      unfolding o by (simp add: map_of_obj_spread map_of_distinct_rev [OF dk])
  qed
  with d keys show ?thesis by blast
qed

subsection \<open>Caches\<close>

text \<open>An entity filed under \<^verbatim>\<open>__proto__\<close> is a plain object. An own property answers a read.
  When the setter of \<^verbatim>\<open>__proto__\<close> would be reached, reading \<^verbatim>\<open>__proto__\<close> gives the prototype,
  an object; so a guard that found nothing under a key is followed by an assignment that
  creates or overwrites an own property.\<close>

lemma proto_key_object:
  "to_string (get v ''_id'') = ''__proto__'' \<Longrightarrow> \<exists>kvs. v = JObj kvs"
  by (cases v) simp_all

lemma cache_get_own: "map_of (entries c) k = Some v \<Longrightarrow> cache_get c k = v"
  by (simp add: cache_get_def)

lemma reaches_setter_truthy: "reaches_setter c \<Longrightarrow> truthy (cache_get c ''__proto__'')"
  by (cases "proto c")
     (auto simp: reaches_setter_def cache_get_def map_of_eq_None_iff [THEN iffD2]
       split: option.splits)

lemma assign_by_id_own:
  assumes "to_string (get v ''_id'') = k" and "k \<in> fst ` set (entries c)"
  shows "assign_by_id c v = c\<lparr>entries := obj_set (entries c) k v\<rparr>"
proof -
  from assms(2) have "\<not> (k = ''__proto__'' \<and> reaches_setter c)"
    by (force simp: reaches_setter_def)
  with assms(1) show ?thesis by (auto simp: assign_by_id_def)
qed

lemma assign_by_id_open:
  assumes "to_string (get v ''_id'') = k" and "\<not> truthy (cache_get c k)"
  shows "assign_by_id c v = c\<lparr>entries := obj_set (entries c) k v\<rparr>"
  using assms reaches_setter_truthy [of c] by (auto simp: assign_by_id_def)

lemma cache_get_assigned:
  "cache_get (c\<lparr>entries := obj_set (entries c) k v\<rparr>) k' =
     (if k' = k then v else cache_get c k')"
  by (cases "map_of (entries c) k'") (simp_all add: cache_get_def map_of_obj_set)

lemma fetchPosts_step:
  assumes "JStr c \<notin> set (posts_loadedColumns (state w))" and "c \<noteq> []"
    and "dispatch net (FetchPosts c) w = (Inr body, w')"
    and "get (get body ''data'') ''list'' = JArr ps"
  shows "\<exists>obj. arrToObj (JArr ps) = Inr obj \<and>
           posts_data (state w') = plain (obj_spread (entries (posts_data (state w))) obj) \<and>
           posts_loadedColumns (state w') = posts_loadedColumns (state w) @ [JStr c] \<and>
           calls w' = calls w @ [request_of (''/columns/'' @ c @ ''/posts'') (''get'', JUndefined) w]"
proof -
  from assms(1,3) have a: "asyncAndCommit net (''/columns/'' @ c @ ''/posts'') MFetchPosts
      (''get'', JUndefined) (JStr c) w = (Inr body, w')"
    by (simp add: fetchPosts_action_def)
  from asyncAndCommit_success [OF a] assms(2,4) asyncAndCommit_calls [OF a] show ?thesis
    by (auto simp: fetchPosts_mutation_def Let_def split: if_splits sum.splits)
qed

subsection \<open>Cache keys and entity ids\<close>

text \<open>
  With a payload of the shape the server sends, every mutation except \<^verbatim>\<open>createPost\<close>
  keeps each key of the own properties of a cache equal to the \<^verbatim>\<open>_id\<close> of the entry stored
  under it. \<^verbatim>\<open>createPost\<close> reads \<^verbatim>\<open>_id\<close> from the envelope instead of from its \<^verbatim>\<open>data\<close>, so
  it files the whole envelope under the key \<^verbatim>\<open>undefined\<close>.
\<close>

lemma has_string_id_key: "has_string_id v \<Longrightarrow> get v ''_id'' = JStr (to_string (get v ''_id''))"
  by (auto simp: has_string_id_def split: json.splits)

lemma keys_obj_set:
  "keys_are_ids obj \<Longrightarrow> get v ''_id'' = JStr k \<Longrightarrow> keys_are_ids (obj_set obj k v)"
  by (induction obj) (auto simp: keys_are_ids_def obj_set_def)

lemma keys_obj_delete: "keys_are_ids obj \<Longrightarrow> keys_are_ids (obj_delete obj k)"
  by (induction obj) (auto simp: keys_are_ids_def obj_delete_def)

lemma keys_obj_spread:
  "keys_are_ids a \<Longrightarrow> keys_are_ids b \<Longrightarrow> keys_are_ids (obj_spread a b)"
proof (induction b arbitrary: a)
  case Nil
  then show ?case by (simp add: obj_spread_def)
next
  case (Cons kv b)
  obtain k v where kv: "kv = (k, v)" by (cases kv)
  from Cons.prems have "get v ''_id'' = JStr k" "keys_are_ids b"
    by (simp_all add: kv keys_are_ids_def)
  with Cons.prems(1) Cons.IH show ?case
    by (simp add: kv obj_spread_Cons keys_obj_set)
qed

lemma entity_keys:
  assumes "has_string_id v" and "keys_are_ids obj"
  shows "keys_are_ids (obj_set obj (to_string (get v ''_id'')) v)"
  using assms(2) has_string_id_key [OF assms(1)] by (rule keys_obj_set)

lemma assigned_keys:
  assumes "has_string_id v" and "keys_are_ids (entries c)"
  shows "keys_are_ids (entries (assign_by_id c v))"
  using assms entity_keys [OF assms]
  by (auto simp: assign_by_id_def split: json.splits)

lemma keys_arrToObj_list:
  "keys_are_ids acc \<Longrightarrow> list_all has_string_id xs \<Longrightarrow> arrToObj_list xs acc = Inr obj \<Longrightarrow>
     keys_are_ids obj"
proof (induction xs arbitrary: acc)
  case Nil
  then show ?case by simp
next
  case (Cons x xs)
  from Cons.prems(3)
  have r: "arrToObj_list xs (obj_set acc (to_string (get x ''_id'')) x) = Inr obj"
    by (simp split: if_splits)
  from Cons.prems(2) have h: "has_string_id x" and t: "list_all has_string_id xs"
    by simp_all
  from h Cons.prems(1) have "keys_are_ids (obj_set acc (to_string (get x ''_id'')) x)"
    by (rule entity_keys)
  from Cons.IH [OF this t r] show ?case .
qed

lemma keys_entity_list:
  assumes "entity_list rawData" and "arrToObj (get (get rawData ''data'') ''list'') = Inr obj"
  shows "keys_are_ids obj"
proof -
  from assms(1) obtain xs where l: "get (get rawData ''data'') ''list'' = JArr xs"
    and a: "list_all has_string_id xs"
    by (auto simp: entity_list_def split: json.splits)
  have e: "keys_are_ids []" by (simp add: keys_are_ids_def)
  from assms(2) l have "arrToObj_list xs [] = Inr obj" by simp
  with e a show ?thesis by (rule keys_arrToObj_list)
qed

lemma other_mutations_keep_keys:
  assumes m: "m \<noteq> MCreatePost" and shape: "server_shaped m p"
    and c: "keys_are_ids (entries (columns_data (state w)))"
    and k: "keys_are_ids (entries (posts_data (state w)))"
    and run: "mutate m p w = Inr w'"
  shows "keys_are_ids (entries (columns_data (state w'))) \<and>
         keys_are_ids (entries (posts_data (state w')))"
proof (cases m)
  case MCreatePost
  with m show ?thesis by simp
next
  case MFetchColumns
  with run obtain obj where "arrToObj (get (get p ''data'') ''list'') = Inr obj"
    and "columns_data (state w') = plain obj" and "posts_data (state w') = posts_data (state w)"
    by (auto simp: fetchColumns_mutation_def split: if_splits sum.splits)
  with shape MFetchColumns k show ?thesis by (simp add: keys_entity_list plain_def)
next
  case MFetchColumn
  with run have "columns_data (state w') = assign_by_id (columns_data (state w)) (get p ''data'')"
    and "posts_data (state w') = posts_data (state w)"
    by (auto simp: fetchColumn_mutation_def split: if_splits)
  with shape MFetchColumn c k show ?thesis by (simp add: assigned_keys)
next
  case MFetchPosts
  with run obtain obj where "arrToObj (get (get (get p ''data'') ''data'') ''list'') = Inr obj"
    and "posts_data (state w') = plain (obj_spread (entries (posts_data (state w))) obj)"
    and "columns_data (state w') = columns_data (state w)"
    by (auto simp: fetchPosts_mutation_def Let_def split: if_splits sum.splits)
  with shape MFetchPosts c k show ?thesis
    by (simp add: keys_entity_list keys_obj_spread plain_def)
next
  case MFetchPost
  with run have "posts_data (state w') = assign_by_id (posts_data (state w)) (get p ''data'')"
    and "columns_data (state w') = columns_data (state w)"
    by (auto simp: fetchPost_mutation_def split: if_splits)
  with shape MFetchPost c k show ?thesis by (simp add: assigned_keys)
next
  case MSetLoading
  with run c k show ?thesis by (auto simp: setLoading_def)
next
  case MSetError
  with run c k show ?thesis by (auto simp: setError_def)
next
  case MLogin
  with run have "posts_data (state w') = posts_data (state w)"
    and "columns_data (state w') = columns_data (state w)"
    by (auto simp: login_mutation_def Let_def split: if_splits)
  with c k show ?thesis by simp
next
  case MFetchCurrentUser
  with run have "posts_data (state w') = posts_data (state w)"
    and "columns_data (state w') = columns_data (state w)"
    by (auto simp: fetchCurrentUser_mutation_def split: if_splits)
  with c k show ?thesis by simp
next
  case MSignOut
  with run c k show ?thesis by (auto simp: signOut_def)
next
  case MUpdatePost
  with run have "posts_data (state w') = assign_by_id (posts_data (state w)) (get p ''data'')"
    and "columns_data (state w') = columns_data (state w)"
    by (auto simp: updatePost_mutation_def split: if_splits)
  with shape MUpdatePost c k show ?thesis by (simp add: assigned_keys)
next
  case MDeletePost
  with run have "posts_data (state w') =
      cache_delete (posts_data (state w)) (to_string (get (get p ''data'') ''_id''))"
    and "columns_data (state w') = columns_data (state w)"
    by (auto simp: deletePost_mutation_def split: if_splits)
  with c k show ?thesis by (simp add: keys_obj_delete cache_delete_def)
qed

lemma createPost_mutation_breaks_keys:
  assumes "server_shaped MCreatePost p" and "mutate MCreatePost p w = Inr w'"
  shows "getCurrentPost (state w') ''undefined'' = p \<and>
         \<not> keys_are_ids (entries (posts_data (state w')))"
proof -
  from assms have d: "entries (posts_data (state w')) =
      obj_set (entries (posts_data (state w))) ''undefined'' p"
    by (auto simp: createPost_mutation_def assign_by_id_def split: if_splits)
  then have g: "map_of (entries (posts_data (state w'))) ''undefined'' = Some p"
    by (simp add: map_of_obj_set)
  then have "(''undefined'', p) \<in> set (entries (posts_data (state w')))" by (rule map_of_SomeD)
  moreover from assms(1) have "get p ''_id'' \<noteq> JStr ''undefined''" by simp
  ultimately have "\<not> keys_are_ids (entries (posts_data (state w')))"
    by (force simp: keys_are_ids_def list_all_iff)
  with g show ?thesis by (simp add: getCurrentPost_def cache_get_own)
qed

section \<open>The claims\<close>

subsection \<open>C1: a failed request\<close>

lemma split_last:
  assumes "xs @ [x] = pre @ req # post" and "length xs \<le> length pre"
  shows "pre = xs \<and> req = x \<and> post = []"
proof -
  from assms(1) have "length (xs @ [x]) = length (pre @ req # post)" by simp
  with assms(2) have p: "post = []" and l: "length pre = length xs" by simp_all
  from assms(1) p have "xs @ [x] = pre @ [req]" by simp
  with l p show ?thesis by simp
qed

lemma split_none:
  assumes "xs = pre @ req # post" and "length xs \<le> length pre"
  shows False
proof -
  from assms(1) have "length xs = length (pre @ req # post)" by simp
  with assms(2) show False by simp
qed

lemma asyncAndCommit_split:
  assumes run: "asyncAndCommit net u m cfg x w = (r, w')"
    and issued: "calls w' = pre @ req # post" and new: "length (calls w) \<le> length pre"
    and failed: "net pre req = Inl reason"
  shows "r = Inl (Network reason) \<and> post = [] \<and> pre = calls w \<and> same_store w w'"
proof -
  from asyncAndCommit_calls [OF run] issued
  have "calls w @ [request_of u cfg w] = pre @ req # post" by simp
  from split_last [OF this new]
  have p: "pre = calls w" and q: "req = request_of u cfg w" and e: "post = []" by simp_all
  from failed p q have "net (calls w) (request_of u cfg w) = Inl reason" by simp
  then have "asyncAndCommit net u m cfg x w =
      (Inl (Network reason), w\<lparr>calls := calls w @ [request_of u cfg w]\<rparr>)"
    by (rule asyncAndCommit_failed)
  with run
  have "r = Inl (Network reason)" and "w' = w\<lparr>calls := calls w @ [request_of u cfg w]\<rparr>"
    by simp_all
  with p e show ?thesis by (simp add: same_store_def)
qed

text \<open>
  C1. The claim reads: for every action and every failing remote call, the rejection
  reaches the caller unchanged and the whole store is the same after the failed action
  as before it. The first half holds for every action. The second half holds for every
  action that wraps one request; \<^verbatim>\<open>loginAndFetch\<close> chains two, and when its second request
  fails the \<^verbatim>\<open>login\<close> mutation has already been committed and stays.

  As amended: for every action and every request the dispatch issues that the server
  fails, the dispatch is rejected with the reason of that request, unchanged, and the
  request is the last one the dispatch issues. For every action other than
  \<^verbatim>\<open>loginAndFetch\<close> no mutation is applied: the state, the storage, the default headers and
  the log of commits are as before the dispatch. For \<^verbatim>\<open>loginAndFetch\<close> either the failed
  request is the login request and the store is as before, or \<^verbatim>\<open>login\<close> succeeded, the
  failed request is the one that follows it, and the store is the one \<^verbatim>\<open>login\<close> left.

  In the statement \<open>pre\<close> are the requests logged before the failed request \<open>req\<close> (at
  least those logged before the dispatch) and \<open>post\<close> the ones logged after it; the
  server was asked \<open>req\<close> with the history \<open>pre\<close>.
\<close>

theorem failed_call_leaves_state:
  assumes run: "dispatch net a w = (r, w')"
    and issued: "calls w' = pre @ req # post" and new: "length (calls w) \<le> length pre"
    and failed: "net pre req = Inl reason"
  shows "r = Inl (Network reason) \<and> post = [] \<and>
         ((\<forall>d. a \<noteq> LoginAndFetch d) \<longrightarrow> pre = calls w \<and> same_store w w') \<and>
         (\<forall>d. a = LoginAndFetch d \<longrightarrow>
            (pre = calls w \<and> same_store w w') \<or>
            (\<exists>v w1. dispatch net (Login d) w = (Inr v, w1) \<and> pre = calls w1 \<and>
               same_store w1 w'))"
proof -
  define goal where "goal \<longleftrightarrow>
      r = Inl (Network reason) \<and> post = [] \<and> pre = calls w \<and> same_store w w'"
  have issue: goal if "asyncAndCommit net u m cfg x w = (r, w')" for u m cfg x
    unfolding goal_def using that issued new failed by (rule asyncAndCommit_split)
  have skip: goal if "w' = w"
    using that issued new by (auto dest: split_none)
  show ?thesis
  proof (cases a)
    case (FetchColumns d)
    with run have goal
      by (auto simp: fetchColumns_action_def split: if_splits intro: issue skip)
    with FetchColumns show ?thesis by (simp add: goal_def)
  next
    case (FetchColumn cid)
    with run have goal
      by (auto simp: fetchColumn_action_def split: if_splits intro: issue skip)
    with FetchColumn show ?thesis by (simp add: goal_def)
  next
    case (FetchPosts cid)
    with run have goal
      by (auto simp: fetchPosts_action_def split: if_splits intro: issue skip)
    with FetchPosts show ?thesis by (simp add: goal_def)
  next
    case (FetchPost pid)
    with run have goal
      by (auto simp: fetchPost_action_def Let_def split: if_splits intro: issue skip)
    with FetchPost show ?thesis by (simp add: goal_def)
  next
    case FetchCurrentUser
    with run have goal by (auto simp: fetchCurrentUser_action_def intro: issue)
    with FetchCurrentUser show ?thesis by (simp add: goal_def)
  next
    case (Login d)
    with run have goal by (auto simp: login_action_def intro: issue)
    with Login show ?thesis by (simp add: goal_def)
  next
    case (CreatePost d)
    with run have goal by (auto simp: createPost_action_def intro: issue)
    with CreatePost show ?thesis by (simp add: goal_def)
  next
    case (UpdatePost pid d)
    with run have goal by (auto simp: updatePost_action_def intro: issue)
    with UpdatePost show ?thesis by (simp add: goal_def)
  next
    case (DeletePost pid)
    with run have goal by (auto simp: deletePost_action_def intro: issue)
    with DeletePost show ?thesis by (simp add: goal_def)
  next
    case (LoginAndFetch d)
    obtain r1 w1 where l: "login_action net d w = (r1, w1)" by (cases "login_action net d w")
    then have la: "asyncAndCommit net ''/user/login'' MLogin (''post'', d) JUndefined w = (r1, w1)"
      by (simp add: login_action_def)
    from asyncAndCommit_calls [OF la]
    have c1: "calls w1 = calls w @ [request_of ''/user/login'' (''post'', d) w]" .
    show ?thesis
    proof (cases r1)
      case (Inl e)
      with run l LoginAndFetch have rw: "r = r1" "w' = w1" by (simp_all add: loginAndFetch_def)
      from la rw have "asyncAndCommit net ''/user/login'' MLogin (''post'', d) JUndefined w = (r, w')"
        by simp
      from asyncAndCommit_split [OF this issued new failed] LoginAndFetch show ?thesis by simp
    next
      case (Inr v)
      with run l LoginAndFetch have f: "fetchCurrentUser_action net w1 = (r, w')"
        by (simp add: loginAndFetch_def)
      then have fa: "asyncAndCommit net ''/user/current'' MFetchCurrentUser
          (''get'', JUndefined) JUndefined w1 = (r, w')"
        by (simp add: fetchCurrentUser_action_def)
      from asyncAndCommit_Inr [of net "''/user/login''" MLogin "(''post'', d)" JUndefined w v w1]
        la Inr
      have ok: "net (calls w) (request_of ''/user/login'' (''post'', d) w) = Inr v" by simp
      have later: "length (calls w1) \<le> length pre"
      proof (rule ccontr)
        assume "\<not> length (calls w1) \<le> length pre"
        with c1 new have len: "length pre = length (calls w)" by simp
        from asyncAndCommit_calls [OF fa] c1 issued
        have "calls w @ request_of ''/user/login'' (''post'', d) w #
            [request_of ''/user/current'' (''get'', JUndefined) w1] = pre @ req # post"
          by simp
        with len have "pre = calls w" and "req = request_of ''/user/login'' (''post'', d) w"
          by (simp_all add: append_eq_append_conv)
        with failed ok show False by simp
      qed
      from asyncAndCommit_split [OF fa issued later failed] l Inr LoginAndFetch
      show ?thesis by auto
    qed
  qed
qed

text \<open>On \<open>demo_server\<close> deleting an unknown post fails and changes nothing; on
  \<open>login_only_server\<close> the second request of \<^verbatim>\<open>loginAndFetch\<close> fails and the store is the
  one after \<^verbatim>\<open>login\<close>.\<close>

theorem failed_call_leaves_state_witness:
  "demo_server [] (request_of ''/posts/p9'' (''delete'', JUndefined) world0)
     = Inl (JStr ''Network Error'') \<and>
   dispatch demo_server (DeletePost ''p9'') world0 =
     (Inl (Network (JStr ''Network Error'')),
      world0\<lparr>calls := [request_of ''/posts/p9'' (''delete'', JUndefined) world0]\<rparr>) \<and>
   same_store world0 (world0\<lparr>calls := [request_of ''/posts/p9'' (''delete'', JUndefined) world0]\<rparr>) \<and>
   login_only_server (calls world_logged)
       (request_of ''/user/current'' (''get'', JUndefined) world_logged)
     = Inl (JStr ''Network Error'') \<and>
   dispatch login_only_server (Login credentials) world0 =
     (Inr (envelope (JObj [(''token'', JStr ''t1'')])), world_logged) \<and>
   dispatch login_only_server (LoginAndFetch credentials) world0 =
     (Inl (Network (JStr ''Network Error'')), world_half) \<and>
   same_store world_logged world_half"
proof -
  let ?del = "request_of ''/posts/p9'' (''delete'', JUndefined) world0"
  let ?cur = "request_of ''/user/current'' (''get'', JUndefined) world_logged"
  have c0: "calls world0 = []" by (simp add: example_defs)
  have h1: "dispatch demo_server (DeletePost ''p9'') world0 =
     (Inl (Network (JStr ''Network Error'')), world0\<lparr>calls := [?del]\<rparr>)"
    by (simp add: example_defs run_defs)
  have i1: "calls (world0\<lparr>calls := [?del]\<rparr>) = [] @ ?del # []" by simp
  have n1: "length (calls world0) \<le> length ([] :: request list)" by (simp add: c0)
  have f1: "demo_server [] ?del = Inl (JStr ''Network Error'')"
    by (simp add: demo_server_def request_of_def)
  have h2': "dispatch login_only_server (LoginAndFetch credentials) world0 =
     (fst (dispatch login_only_server (LoginAndFetch credentials) world0), world_half)"
    by (simp add: world_defs)
  have h3: "dispatch login_only_server (Login credentials) world0 =
     (Inr (envelope (JObj [(''token'', JStr ''t1'')])), world_logged)"
    by (simp add: world_defs example_defs run_defs)
  have i2: "calls world_half = calls world_logged @ ?cur # []"
    by (simp add: world_defs example_defs run_defs)
  have n2: "length (calls world0) \<le> length (calls world_logged)"
    by (simp add: c0)
  have f2: "login_only_server (calls world_logged) ?cur = Inl (JStr ''Network Error'')"
    by (simp add: login_only_server_def request_of_def)
  note t1 = failed_call_leaves_state [OF h1 i1 n1 f1]
  note t2 = failed_call_leaves_state [OF h2' i2 n2 f2]
  from t1 have s1: "same_store world0 (world0\<lparr>calls := [?del]\<rparr>)" by blast
  from t2 have r2: "fst (dispatch login_only_server (LoginAndFetch credentials) world0)
      = Inl (Network (JStr ''Network Error''))" by blast
  with h2' have run2: "dispatch login_only_server (LoginAndFetch credentials) world0 =
     (Inl (Network (JStr ''Network Error'')), world_half)" by simp
  have "calls world_logged \<noteq> calls world0"
    by (simp add: world_defs example_defs run_defs)
  with t2 h3 have s2: "same_store world_logged world_half" by auto
  from f1 h1 s1 f2 h3 run2 s2 show ?thesis by blast
qed

text \<open>The claim as first stated fails on \<open>login_only_server\<close>: \<^verbatim>\<open>loginAndFetch\<close> is rejected
  with the reason of the failed \<^verbatim>\<open>/user/current\<close> request, and the token has changed from
  the empty string to \<^verbatim>\<open>t1\<close>.\<close>

theorem loginAndFetch_partial_counterexample:
  "fst (dispatch login_only_server (LoginAndFetch credentials) world0)
     = Inl (Network (JStr ''Network Error'')) \<and>
   token (state world0) = JStr '''' \<and>
   token (state (snd (dispatch login_only_server (LoginAndFetch credentials) world0)))
     = JStr ''t1'' \<and>
   map req_url (calls (snd (dispatch login_only_server (LoginAndFetch credentials) world0)))
     = [''/user/login'', ''/user/current''] \<and>
   commits (snd (dispatch login_only_server (LoginAndFetch credentials) world0))
     = [(MLogin, envelope (JObj [(''token'', JStr ''t1'')]))]"
  by (simp add: example_defs run_defs)

subsection \<open>C2: \<^verbatim>\<open>fetchColumn\<close> is memoized\<close>

text \<open>What an empty cache answers: nothing of its own, but every name a plain object
  inherits is found and is not falsy.\<close>

lemma empty_cache_answers:
  "truthy (cache_get (plain []) k) \<longleftrightarrow>
     k = ''__proto__'' \<or> k = ''constructor'' \<or> k \<in> set object_prototype_methods"
  by (simp add: cache_get_def plain_def object_prototype_get_def)

text \<open>
  C2. The claim reads: for every column id \<open>cid\<close>, dispatching \<^verbatim>\<open>fetchColumn\<close> twice for
  \<open>cid\<close>, the second dispatch after the first has completed successfully, issues exactly
  one request. The guard of the action is \<^verbatim>\<open>!state.columns.data[cid]\<close> on a plain object,
  so it is closed not only for a cached column but also for every key a plain object
  inherits: for \<^verbatim>\<open>constructor\<close>, \<^verbatim>\<open>toString\<close>, \<^verbatim>\<open>valueOf\<close>, \<^verbatim>\<open>hasOwnProperty\<close>, \<^verbatim>\<open>__proto__\<close> and
  the like, the first dispatch already skips the network and the two dispatches issue no
  request at all.

  As amended: for every column id \<open>cid\<close> for which the first dispatch is fulfilled with
  the server's column of that id (the cache did not answer \<open>cid\<close> before, neither with an
  entry nor with an inherited member), the second dispatch skips the network, resolves to
  undefined and leaves the world as it is: the two dispatches issue exactly one request.
  When the cache answers \<open>cid\<close> before the first dispatch, that dispatch issues no
  request, resolves to undefined and leaves the world as it is.
\<close>

theorem fetchColumn_memoized:
  "(dispatch net (FetchColumn cid) w = (Inr body, w1) \<and>
    get (get body ''data'') ''_id'' = JStr cid \<longrightarrow>
      \<not> truthy (cache_get (columns_data (state w)) cid) \<and>
      dispatch net (FetchColumn cid) w1 = (Inr JUndefined, w1) \<and>
      calls w1 = calls w @ [request_of (''/columns/'' @ cid) (''get'', JUndefined) w] \<and>
      length (calls (snd (dispatch net (FetchColumn cid) w1))) = length (calls w) + 1) \<and>
   (truthy (cache_get (columns_data (state w)) cid) \<longrightarrow>
      dispatch net (FetchColumn cid) w = (Inr JUndefined, w))"
proof -
  have once: "\<not> truthy (cache_get (columns_data (state w)) cid) \<and>
      dispatch net (FetchColumn cid) w1 = (Inr JUndefined, w1) \<and>
      calls w1 = calls w @ [request_of (''/columns/'' @ cid) (''get'', JUndefined) w] \<and>
      length (calls (snd (dispatch net (FetchColumn cid) w1))) = length (calls w) + 1"
    if first: "dispatch net (FetchColumn cid) w = (Inr body, w1)"
      and echo: "get (get body ''data'') ''_id'' = JStr cid"
  proof -
    have cold: "\<not> truthy (cache_get (columns_data (state w)) cid)"
    proof
      assume "truthy (cache_get (columns_data (state w)) cid)"
      with first have "body = JUndefined" by (simp add: fetchColumn_action_def)
      with echo show False by simp
    qed
    with first have a: "asyncAndCommit net (''/columns/'' @ cid) MFetchColumn
        (''get'', JUndefined) JUndefined w = (Inr body, w1)"
      by (simp add: fetchColumn_action_def)
    from asyncAndCommit_calls [OF a]
    have c: "calls w1 = calls w @ [request_of (''/columns/'' @ cid) (''get'', JUndefined) w]" .
    from echo have d: "truthy (get body ''data'')" by (simp add: get_JStr_object)
    from echo have k: "to_string (get (get body ''data'') ''_id'') = cid" by simp
    from asyncAndCommit_success [OF a]
    have "columns_data (state w1) = assign_by_id (columns_data (state w)) (get body ''data'')"
      by (auto simp: fetchColumn_mutation_def split: if_splits)
    with assign_by_id_open [OF k cold]
    have "cache_get (columns_data (state w1)) cid = get body ''data''"
      by (simp add: cache_get_assigned)
    with d have "dispatch net (FetchColumn cid) w1 = (Inr JUndefined, w1)"
      by (simp add: fetchColumn_action_def)
    with c cold show ?thesis by simp
  qed
  moreover have "dispatch net (FetchColumn cid) w = (Inr JUndefined, w)"
    if "truthy (cache_get (columns_data (state w)) cid)"
    using that by (simp add: fetchColumn_action_def)
  ultimately show ?thesis by blast
qed

text \<open>On \<open>demo_server\<close>, from the initial world: column \<^verbatim>\<open>c1\<close> is fetched once, and the second
  dispatch finds it in the cache.\<close>

theorem fetchColumn_memoized_witness:
  "dispatch demo_server (FetchColumn ''c1'') world0 = (Inr (envelope column_c1), world_c1) \<and>
   get (get (envelope column_c1) ''data'') ''_id'' = JStr ''c1'' \<and>
   truthy (cache_get (columns_data (state world_c1)) ''c1'') \<and>
   dispatch demo_server (FetchColumn ''c1'') world_c1 = (Inr JUndefined, world_c1) \<and>
   length (calls (snd (dispatch demo_server (FetchColumn ''c1'') world_c1))) = 1"
proof -
  have h2: "dispatch demo_server (FetchColumn ''c1'') world0 = (Inr (envelope column_c1), world_c1)"
    by (simp add: world_defs example_defs run_defs)
  have h3: "get (get (envelope column_c1) ''data'') ''_id'' = JStr ''c1''"
    by (simp add: example_defs)
  have h4: "truthy (cache_get (columns_data (state world_c1)) ''c1'')"
    by (simp add: world_defs example_defs run_defs)
  have c: "calls world0 = []" by (simp add: example_defs)
  note t = fetchColumn_memoized [of demo_server "''c1''" world0 "envelope column_c1" world_c1]
  note u = fetchColumn_memoized [of demo_server "''c1''" world_c1]
  from t h2 h3 have "length (calls (snd (dispatch demo_server (FetchColumn ''c1'') world_c1)))
      = length (calls world0) + 1" by blast
  moreover from u h4 have "dispatch demo_server (FetchColumn ''c1'') world_c1
      = (Inr JUndefined, world_c1)" by blast
  ultimately show ?thesis using h2 h3 h4 c by simp
qed

text \<open>The claim as first stated fails for the column id \<^verbatim>\<open>constructor\<close>: \<open>demo_server\<close> has
  a column of that id and would answer the request, but from the initial world the
  first dispatch is fulfilled with undefined without asking, and after the two
  dispatches no request has been issued.\<close>

theorem fetchColumn_inherited_key_counterexample:
  "demo_server (calls world0) (request_of ''/columns/constructor'' (''get'', JUndefined) world0)
     = Inr (envelope column_constructor) \<and>
   dispatch demo_server (FetchColumn ''constructor'') world0 = (Inr JUndefined, world0) \<and>
   calls (snd (dispatch demo_server (FetchColumn ''constructor'')
      (snd (dispatch demo_server (FetchColumn ''constructor'') world0)))) = []"
  by (simp add: example_defs run_defs)

subsection \<open>C3: what a fulfilled dispatch returns\<close>




subsection \<open>C4: \<^verbatim>\<open>loginAndFetch\<close> runs \<^verbatim>\<open>login\<close> first\<close>

text \<open>
  C4. \<^verbatim>\<open>loginAndFetch\<close> runs \<^verbatim>\<open>login\<close> first and \<^verbatim>\<open>fetchCurrentUser\<close> only after \<^verbatim>\<open>login\<close> has
  succeeded. When \<^verbatim>\<open>login\<close> fails, \<^verbatim>\<open>loginAndFetch\<close> ends exactly as \<^verbatim>\<open>login\<close> alone does:
  the only request issued is the one to \<^verbatim>\<open>/user/login\<close>, the user slot is untouched and no
  mutation other than possibly \<^verbatim>\<open>login\<close> itself was committed. When \<^verbatim>\<open>login\<close> succeeds,
  \<^verbatim>\<open>loginAndFetch\<close> continues as \<^verbatim>\<open>fetchCurrentUser\<close> from the world \<^verbatim>\<open>login\<close> left, and the
  request to \<^verbatim>\<open>/user/current\<close> follows the one to \<^verbatim>\<open>/user/login\<close>.
\<close>

theorem loginAndFetch_order:
  assumes "dispatch net (Login d) w = (r1, w1)"
  shows "calls w1 = calls w @ [request_of ''/user/login'' (''post'', d) w] \<and>
         (\<forall>e. r1 = Inl e \<longrightarrow>
            dispatch net (LoginAndFetch d) w = (Inl e, w1) \<and>
            user (state w1) = user (state w) \<and>
            (commits w1 = commits w \<or> (\<exists>body. commits w1 = commits w @ [(MLogin, body)]))) \<and>
         (\<forall>v. r1 = Inr v \<longrightarrow>
            dispatch net (LoginAndFetch d) w = dispatch net FetchCurrentUser w1 \<and>
            calls (snd (dispatch net (LoginAndFetch d) w)) =
              calls w @ [request_of ''/user/login'' (''post'', d) w,
                         request_of ''/user/current'' (''get'', JUndefined) w1])"
proof -
  from assms have l: "login_action net d w = (r1, w1)" by simp
  then have c: "calls w1 = calls w @ [request_of ''/user/login'' (''post'', d) w]"
    by (simp add: login_action_def asyncAndCommit_calls)
  have fail: "dispatch net (LoginAndFetch d) w = (Inl e, w1) \<and>
        user (state w1) = user (state w) \<and>
        (commits w1 = commits w \<or> (\<exists>body. commits w1 = commits w @ [(MLogin, body)]))"
    if "r1 = Inl e" for e
    using l that
    by (auto simp: loginAndFetch_def login_action_def asyncAndCommit_def axios_def commit_def
        Let_def split: sum.splits prod.splits option.splits if_splits)
  have ok: "dispatch net (LoginAndFetch d) w = dispatch net FetchCurrentUser w1 \<and>
        calls (snd (dispatch net (LoginAndFetch d) w)) =
          calls w @ [request_of ''/user/login'' (''post'', d) w,
                     request_of ''/user/current'' (''get'', JUndefined) w1]"
    if "r1 = Inr v" for v
  proof -
    have e: "dispatch net (LoginAndFetch d) w = dispatch net FetchCurrentUser w1"
      using l that by (simp add: loginAndFetch_def)
    have "calls (snd (fetchCurrentUser_action net w1)) =
        calls w1 @ [request_of ''/user/current'' (''get'', JUndefined) w1]"
      by (rule asyncAndCommit_calls [where r = "fst (fetchCurrentUser_action net w1)"])
         (simp add: fetchCurrentUser_action_def)
    with e c show ?thesis by simp
  qed
  from c fail ok show ?thesis by blast
qed

text \<open>Both branches: \<open>offline_server\<close> fails the login, \<open>demo_server\<close> accepts it.\<close>

theorem loginAndFetch_order_witness:
  "dispatch offline_server (Login credentials) world0 =
     (Inl (Network (JStr ''Network Error'')), world_offline) \<and>
   dispatch offline_server (LoginAndFetch credentials) world0 =
     (Inl (Network (JStr ''Network Error'')), world_offline) \<and>
   calls world_offline = calls world0 @ [request_of ''/user/login'' (''post'', credentials) world0] \<and>
   user (state world_offline) = user (state world0) \<and>
   dispatch demo_server (Login credentials) world0 =
     (Inr (envelope (JObj [(''token'', JStr ''t1'')])), world_logged_in) \<and>
   dispatch demo_server (LoginAndFetch credentials) world0 =
     dispatch demo_server FetchCurrentUser world_logged_in \<and>
   calls (snd (dispatch demo_server (LoginAndFetch credentials) world0)) =
     calls world0 @ [request_of ''/user/login'' (''post'', credentials) world0,
                     request_of ''/user/current'' (''get'', JUndefined) world_logged_in]"
proof -
  have f: "dispatch offline_server (Login credentials) world0 =
     (Inl (Network (JStr ''Network Error'')), world_offline)"
    by (simp add: world_defs example_defs run_defs)
  have g: "dispatch demo_server (Login credentials) world0 =
     (Inr (envelope (JObj [(''token'', JStr ''t1'')])), world_logged_in)"
    by (simp add: world_defs example_defs run_defs)
  from loginAndFetch_order [OF f] loginAndFetch_order [OF g] f g show ?thesis by blast
qed

subsection \<open>C5: \<^verbatim>\<open>login\<close> then \<^verbatim>\<open>signOut\<close>\<close>

text \<open>
  C5. For every starting world and every login payload, committing \<^verbatim>\<open>login\<close> and then
  \<^verbatim>\<open>signOut\<close> leaves the token equal to the empty string, the user slot equal to
  \<^verbatim>\<open>{ isLogin: false }\<close> with no other field, no \<^verbatim>\<open>Authorization\<close> default header on the HTTP
  client and no token in the durable storage. This covers a \<^verbatim>\<open>login\<close> that throws on its
  payload too: \<open>commit\<close> returns the world in both cases.
\<close>

theorem login_then_signOut:
  assumes "commit MLogin p w = (r1, w1)" and "commit MSignOut q w1 = (r2, w2)"
  shows "r2 = None \<and> token (state w2) = JStr '''' \<and>
         user (state w2) = JObj [(''isLogin'', JBool False)] \<and>
         headers_common w2 ''Authorization'' = None \<and>
         localStorage w2 ''token'' = None"
  using assms(2) by (auto simp: commit_def signOut_def Let_def)

text \<open>From the initial world with the token \<^verbatim>\<open>t1\<close>: set by \<^verbatim>\<open>login\<close>, cleared by \<^verbatim>\<open>signOut\<close>.\<close>

theorem login_then_signOut_witness:
  "commit MLogin (envelope (JObj [(''token'', JStr ''t1'')])) world0 = (None, world_in) \<and>
   token (state world_in) = JStr ''t1'' \<and>
   headers_common world_in ''Authorization'' = Some ''Bearer t1'' \<and>
   token (state (snd (commit MSignOut JUndefined world_in))) = JStr '''' \<and>
   user (state (snd (commit MSignOut JUndefined world_in))) = JObj [(''isLogin'', JBool False)] \<and>
   headers_common (snd (commit MSignOut JUndefined world_in)) ''Authorization'' = None"
proof -
  have h1: "commit MLogin (envelope (JObj [(''token'', JStr ''t1'')])) world0 = (None, world_in)"
    by (simp add: world_defs example_defs run_defs)
  have h2: "commit MSignOut JUndefined world_in =
      (fst (commit MSignOut JUndefined world_in), snd (commit MSignOut JUndefined world_in))"
    by simp
  have t: "token (state world_in) = JStr ''t1'' \<and>
      headers_common world_in ''Authorization'' = Some ''Bearer t1''"
    by (simp add: world_defs example_defs run_defs)
  from login_then_signOut [OF h1 h2] h1 t show ?thesis by simp
qed

subsection \<open>C6: posts of two columns are merged\<close>

text \<open>
  C6. For two distinct column ids \<open>A\<close> and \<open>B\<close>, neither loaded yet, \<^verbatim>\<open>fetchPosts\<close> for \<open>A\<close>
  and then for \<open>B\<close> leaves every post of both batches in the post cache under its id:
  the second batch is merged into the cache and does not replace it. The entries the
  cache has under other ids stay as they were, and the merged cache is a new plain object. \<^verbatim>\<open>loadedColumns\<close> gains \<open>A\<close> and \<open>B\<close>, in this
  order and once each, so it has no duplicates if it had none; dispatching \<^verbatim>\<open>fetchPosts\<close>
  for \<open>A\<close> or \<open>B\<close> again is stopped by the guard of the action and changes nothing. The
  column ids are not empty, both dispatches are fulfilled with the server's payloads,
  whose \<^verbatim>\<open>data.list\<close> are the two batches, and the posts of the two batches have pairwise
  different ids.
\<close>

theorem fetchPosts_two_columns:
  assumes ne: "A \<noteq> B" "A \<noteq> []" "B \<noteq> []"
    and fresh: "JStr A \<notin> set (posts_loadedColumns (state w))"
               "JStr B \<notin> set (posts_loadedColumns (state w))"
    and runA: "dispatch net (FetchPosts A) w = (Inr bodyA, wA)"
    and runB: "dispatch net (FetchPosts B) wA = (Inr bodyB, wB)"
    and listA: "get (get bodyA ''data'') ''list'' = JArr psA"
    and listB: "get (get bodyB ''data'') ''list'' = JArr psB"
    and ids: "distinct (map (\<lambda>p. to_string (get p ''_id'')) (psA @ psB))"
  shows "(\<forall>p \<in> set psA \<union> set psB.
            getCurrentPost (state wB) (to_string (get p ''_id'')) = p) \<and>
         (\<forall>k. k \<notin> (\<lambda>p. to_string (get p ''_id'')) ` (set psA \<union> set psB) \<longrightarrow>
            map_of (entries (posts_data (state wB))) k
              = map_of (entries (posts_data (state w))) k) \<and>
         proto (posts_data (state wB)) = Object_prototype \<and>
         posts_loadedColumns (state wB) = posts_loadedColumns (state w) @ [JStr A, JStr B] \<and>
         (distinct (posts_loadedColumns (state w)) \<longrightarrow> distinct (posts_loadedColumns (state wB))) \<and>
         length (calls wB) = length (calls w) + 2 \<and>
         dispatch net (FetchPosts A) wB = (Inr JUndefined, wB) \<and>
         dispatch net (FetchPosts B) wB = (Inr JUndefined, wB)"
proof -
  let ?key = "\<lambda>p. to_string (get p ''_id'')"
  from fetchPosts_step [OF fresh(1) ne(2) runA listA]
  obtain objA where oA: "arrToObj (JArr psA) = Inr objA"
    and dA: "posts_data (state wA) = plain (obj_spread (entries (posts_data (state w))) objA)"
    and lA: "posts_loadedColumns (state wA) = posts_loadedColumns (state w) @ [JStr A]"
    and cA: "length (calls wA) = length (calls w) + 1" by auto
  from fresh(2) ne(1) lA have freshB: "JStr B \<notin> set (posts_loadedColumns (state wA))" by auto
  from fetchPosts_step [OF freshB ne(3) runB listB]
  obtain objB where oB: "arrToObj (JArr psB) = Inr objB"
    and dB: "posts_data (state wB) = plain (obj_spread (entries (posts_data (state wA))) objB)"
    and lB: "posts_loadedColumns (state wB) = posts_loadedColumns (state wA) @ [JStr B]"
    and cB: "length (calls wB) = length (calls wA) + 1" by auto
  from ids have idA: "distinct (map ?key psA)" and idB: "distinct (map ?key psB)"
    and disj: "?key ` set psA \<inter> ?key ` set psB = {}" by auto
  from arrToObj_Inr [OF oA refl] idA
  have kA: "distinct (map fst objA)" "fst ` set objA = ?key ` set psA"
    and vA: "\<And>p. p \<in> set psA \<Longrightarrow> map_of objA (?key p) = Some p" by auto
  from arrToObj_Inr [OF oB refl] idB
  have kB: "distinct (map fst objB)" "fst ` set objB = ?key ` set psB"
    and vB: "\<And>p. p \<in> set psB \<Longrightarrow> map_of objB (?key p) = Some p" by auto
  have look: "map_of (entries (posts_data (state wB))) k =
      (if k \<in> ?key ` set psB then map_of objB k
       else if k \<in> ?key ` set psA then map_of objA k
       else map_of (entries (posts_data (state w))) k)" for k
    by (simp add: dB dA plain_def map_of_obj_spread_distinct kA kB)
  have own: "map_of (entries (posts_data (state wB))) (?key p) = Some p"
    if "p \<in> set psA \<union> set psB" for p
  proof (cases "p \<in> set psB")
    case True
    then show ?thesis by (simp add: look vB)
  next
    case False
    with that have pA: "p \<in> set psA" by simp
    with disj have "?key p \<notin> ?key ` set psB" by blast
    with pA show ?thesis by (simp add: look vA)
  qed
  have present: "getCurrentPost (state wB) (?key p) = p" if "p \<in> set psA \<union> set psB" for p
    using own [OF that] by (simp add: getCurrentPost_def cache_get_own)
  have kept: "map_of (entries (posts_data (state wB))) k
      = map_of (entries (posts_data (state w))) k"
    if "k \<notin> ?key ` (set psA \<union> set psB)" for k
    using that by (simp add: look image_Un)
  have fresh_object: "proto (posts_data (state wB)) = Object_prototype"
    by (simp add: dB plain_def)
  have loaded: "posts_loadedColumns (state wB) = posts_loadedColumns (state w) @ [JStr A, JStr B]"
    by (simp add: lA lB)
  have nodup: "distinct (posts_loadedColumns (state wB))"
    if "distinct (posts_loadedColumns (state w))"
    using that fresh ne(1) by (simp add: loaded)
  have again: "dispatch net (FetchPosts A) wB = (Inr JUndefined, wB)"
    "dispatch net (FetchPosts B) wB = (Inr JUndefined, wB)"
    by (simp_all add: fetchPosts_action_def loaded)
  from present kept fresh_object loaded nodup again cA cB show ?thesis by simp
qed

text \<open>On \<open>demo_server\<close>: columns \<^verbatim>\<open>c1\<close> (posts \<^verbatim>\<open>p1\<close>, \<^verbatim>\<open>p2\<close>) and \<^verbatim>\<open>c2\<close> (post \<^verbatim>\<open>p3\<close>).\<close>

theorem fetchPosts_two_columns_witness:
  "JStr ''c1'' \<notin> set (posts_loadedColumns (state world0)) \<and>
   JStr ''c2'' \<notin> set (posts_loadedColumns (state world0)) \<and>
   get (get body_c1_posts ''data'') ''list'' = JArr [post_p1_stub, post_p2] \<and>
   get (get body_c2_posts ''data'') ''list'' = JArr [post_p3] \<and>
   distinct (map (\<lambda>p. to_string (get p ''_id'')) ([post_p1_stub, post_p2] @ [post_p3])) \<and>
   dispatch demo_server (FetchPosts ''c1'') world0 = (Inr body_c1_posts, world_a) \<and>
   dispatch demo_server (FetchPosts ''c2'') world_a = (Inr body_c2_posts, world_ab) \<and>
   getCurrentPost (state world_ab) ''p1'' = post_p1_stub \<and>
   getCurrentPost (state world_ab) ''p2'' = post_p2 \<and>
   getCurrentPost (state world_ab) ''p3'' = post_p3 \<and>
   posts_loadedColumns (state world_ab) = [JStr ''c1'', JStr ''c2''] \<and>
   distinct (posts_loadedColumns (state world_ab))"
proof -
  have ne: "''c1'' \<noteq> ''c2''" "''c1'' \<noteq> []" "''c2'' \<noteq> []" by simp_all
  have fresh: "JStr ''c1'' \<notin> set (posts_loadedColumns (state world0))"
    "JStr ''c2'' \<notin> set (posts_loadedColumns (state world0))"
    by (simp_all add: example_defs)
  have runA: "dispatch demo_server (FetchPosts ''c1'') world0 = (Inr body_c1_posts, world_a)"
    by (simp add: body_defs world_defs example_defs run_defs)
  have runB: "dispatch demo_server (FetchPosts ''c2'') world_a = (Inr body_c2_posts, world_ab)"
    by (simp add: body_defs world_defs example_defs run_defs)
  have listA: "get (get body_c1_posts ''data'') ''list'' = JArr [post_p1_stub, post_p2]"
    by (simp add: body_defs example_defs)
  have listB: "get (get body_c2_posts ''data'') ''list'' = JArr [post_p3]"
    by (simp add: body_defs example_defs)
  have ids: "distinct (map (\<lambda>p. to_string (get p ''_id'')) ([post_p1_stub, post_p2] @ [post_p3]))"
    by (simp add: example_defs)
  have keys: "to_string (get post_p1_stub ''_id'') = ''p1''" "to_string (get post_p2 ''_id'') = ''p2''"
    "to_string (get post_p3 ''_id'') = ''p3''"
    by (simp_all add: example_defs)
  have l0: "posts_loadedColumns (state world0) = []" by (simp add: example_defs)
  note t = fetchPosts_two_columns [OF ne fresh runA runB listA listB ids]
  from t keys have "getCurrentPost (state world_ab) ''p1'' = post_p1_stub"
    "getCurrentPost (state world_ab) ''p2'' = post_p2"
    "getCurrentPost (state world_ab) ''p3'' = post_p3"
    by (metis Un_iff list.set_intros(1,2) set_append)+
  moreover from t l0 have "posts_loadedColumns (state world_ab) = [JStr ''c1'', JStr ''c2'']"
    "distinct (posts_loadedColumns (state world_ab))" by simp_all
  ultimately show ?thesis using fresh listA listB ids runA runB by blast
qed

subsection \<open>C7: \<^verbatim>\<open>getPostsByCid\<close>\<close>

text \<open>
  C7. For every post cache and every column id, \<^verbatim>\<open>getPostsByCid\<close> returns exactly the cached
  posts whose \<^verbatim>\<open>column\<close> field equals the id: every returned post is in the cache and has
  that \<^verbatim>\<open>column\<close>, and every cached post with that \<^verbatim>\<open>column\<close> is returned. The cache
  holds posts, that is, no entry is undefined or null.
\<close>

theorem getPostsByCid_exact:
  assumes "\<forall>post \<in> set (objToArr (entries (posts_data s))). \<not> nullish post"
  shows "\<exists>ps. getPostsByCid s cid = Inr ps \<and>
           (\<forall>post \<in> set ps. get post ''column'' = JStr cid \<and>
              post \<in> snd ` set (entries (posts_data s))) \<and>
           (\<forall>(k, post) \<in> set (entries (posts_data s)).
              get post ''column'' = JStr cid \<longrightarrow> post \<in> set ps)"
  using assms by (auto simp: getPostsByCid_def objToArr_def list_ex_iff intro: rev_image_eqI)

text \<open>The cache with \<^verbatim>\<open>p1\<close>, \<^verbatim>\<open>p2\<close> of column \<^verbatim>\<open>c1\<close> and \<^verbatim>\<open>p3\<close> of column \<^verbatim>\<open>c2\<close>, asked for \<^verbatim>\<open>c1\<close>.\<close>

theorem getPostsByCid_exact_witness:
  "\<not> list_ex nullish (objToArr (entries (posts_data (state world_ab)))) \<and>
   getPostsByCid (state world_ab) ''c1'' = Inr [post_p1_stub, post_p2] \<and>
   get post_p1_stub ''column'' = JStr ''c1'' \<and>
   get post_p2 ''column'' = JStr ''c1'' \<and>
   post_p1_stub \<in> snd ` set (entries (posts_data (state world_ab))) \<and>
   post_p2 \<in> snd ` set (entries (posts_data (state world_ab))) \<and>
   (\<exists>ps. getPostsByCid (state world_ab) ''c1'' = Inr ps \<and>
      (\<forall>post \<in> set ps. get post ''column'' = JStr ''c1'' \<and>
          post \<in> snd ` set (entries (posts_data (state world_ab)))) \<and>
      (\<forall>(k, post) \<in> set (entries (posts_data (state world_ab))).
          get post ''column'' = JStr ''c1'' \<longrightarrow> post \<in> set ps))"
proof -
  have d: "entries (posts_data (state world_ab)) =
      [(''p1'', post_p1_stub), (''p2'', post_p2), (''p3'', post_p3)]"
    by (simp add: world_defs example_defs run_defs)
  have n: "\<not> list_ex nullish (objToArr (entries (posts_data (state world_ab))))"
    by (simp add: d objToArr_def nullish_def example_defs)
  then have h: "\<forall>post \<in> set (objToArr (entries (posts_data (state world_ab)))). \<not> nullish post"
    by (simp add: list_ex_iff)
  have e: "getPostsByCid (state world_ab) ''c1'' = Inr [post_p1_stub, post_p2]"
    by (simp add: getPostsByCid_def d objToArr_def nullish_def example_defs)
  note t = getPostsByCid_exact [OF h, of "''c1''"]
  with e have "get post_p1_stub ''column'' = JStr ''c1''" "get post_p2 ''column'' = JStr ''c1''"
    "post_p1_stub \<in> snd ` set (entries (posts_data (state world_ab)))"
    "post_p2 \<in> snd ` set (entries (posts_data (state world_ab)))"
    by auto
  with t n e show ?thesis by blast
qed

subsection \<open>C8: cache keys are entity ids\<close>

text \<open>
  C8. Every mutation is to keep each key of the column cache and of the post cache equal
  to the \<^verbatim>\<open>_id\<close> of the entry stored under it, for every payload of the shape the server
  sends. \<^verbatim>\<open>createPost\<close> does not. Its action commits the response envelope, as every
  action does, but the mutation reads \<^verbatim>\<open>newPost._id\<close> from the envelope itself, where
  \<^verbatim>\<open>updatePost\<close> and \<^verbatim>\<open>fetchPost\<close> read it from the envelope's \<^verbatim>\<open>data\<close>. On \<open>demo_server\<close>,
  creating a post from the initial world files the whole envelope under the key
  \<^verbatim>\<open>undefined\<close>, and the keys of the post cache are no longer the ids of its entries;
  updating the same post files the post under \<^verbatim>\<open>p1\<close>.
\<close>

theorem createPost_key_is_undefined:
  "keys_are_ids (entries (posts_data (state world0))) \<and>
   fst (createPost_action demo_server draft world0) = Inr (envelope post_p1) \<and>
   entries (posts_data (state (snd (createPost_action demo_server draft world0))))
     = [(''undefined'', envelope post_p1)] \<and>
   keys_are_ids (entries (posts_data (state (snd (createPost_action demo_server draft world0)))))
     = False \<and>
   entries (posts_data (state (snd (updatePost_action demo_server ''p1'' draft world0))))
     = [(''p1'', post_p1)]"
  by (simp add: keys_are_ids_def body_defs example_defs run_defs)

subsection \<open>C9: a cached stub does not stop \<^verbatim>\<open>fetchPost\<close>\<close>

text \<open>
  C9. For a post id whose cache entry exists but has an empty or absent \<^verbatim>\<open>content\<close>,
  dispatching \<^verbatim>\<open>fetchPost\<close> issues the request to \<^verbatim>\<open>/posts/:id\<close>, whatever the server then
  does. When the server answers with the post of that id, the dispatch is fulfilled with
  the server's payload, the \<^verbatim>\<open>fetchPost\<close> mutation is committed with it, and the cache
  entry is replaced by the post the server sent, its \<^verbatim>\<open>content\<close> included; the keys of the
  cache and every other entry stay as they were.
\<close>

theorem fetchPost_refreshes_stub:
  assumes entry: "map_of (entries (posts_data (state w))) pid = Some stub"
    and empty: "\<not> truthy (get stub ''content'')"
  shows "calls (snd (dispatch net (FetchPost pid) w)) =
           calls w @ [request_of (''/posts/'' @ pid) (''get'', JUndefined) w] \<and>
         (\<forall>body.
            net (calls w) (request_of (''/posts/'' @ pid) (''get'', JUndefined) w) = Inr body \<and>
            get (get body ''data'') ''_id'' = JStr pid \<longrightarrow>
            fst (dispatch net (FetchPost pid) w) = Inr body \<and>
            commits (snd (dispatch net (FetchPost pid) w)) = commits w @ [(MFetchPost, body)] \<and>
            getCurrentPost (state (snd (dispatch net (FetchPost pid) w))) pid = get body ''data'' \<and>
            get (getCurrentPost (state (snd (dispatch net (FetchPost pid) w))) pid) ''content''
              = get (get body ''data'') ''content'' \<and>
            map fst (entries (posts_data (state (snd (dispatch net (FetchPost pid) w)))))
              = map fst (entries (posts_data (state w))) \<and>
            (\<forall>k. k \<noteq> pid \<longrightarrow>
               getCurrentPost (state (snd (dispatch net (FetchPost pid) w))) k
                 = getCurrentPost (state w) k))"
proof -
  let ?req = "request_of (''/posts/'' @ pid) (''get'', JUndefined) w"
  from entry empty have run: "dispatch net (FetchPost pid) w =
      asyncAndCommit net (''/posts/'' @ pid) MFetchPost (''get'', JUndefined) JUndefined w"
    by (simp add: fetchPost_action_def cache_get_own)
  have issued: "calls (snd (dispatch net (FetchPost pid) w)) = calls w @ [?req]"
    unfolding run by (rule asyncAndCommit_calls) (rule prod.collapse [symmetric])
  have refreshed: "fst (dispatch net (FetchPost pid) w) = Inr body \<and>
      commits (snd (dispatch net (FetchPost pid) w)) = commits w @ [(MFetchPost, body)] \<and>
      getCurrentPost (state (snd (dispatch net (FetchPost pid) w))) pid = get body ''data'' \<and>
      get (getCurrentPost (state (snd (dispatch net (FetchPost pid) w))) pid) ''content''
        = get (get body ''data'') ''content'' \<and>
      map fst (entries (posts_data (state (snd (dispatch net (FetchPost pid) w)))))
        = map fst (entries (posts_data (state w))) \<and>
      (\<forall>k. k \<noteq> pid \<longrightarrow>
         getCurrentPost (state (snd (dispatch net (FetchPost pid) w))) k
           = getCurrentPost (state w) k)"
    if answer: "net (calls w) ?req = Inr body" and echo: "get (get body ''data'') ''_id'' = JStr pid"
    for body
  proof -
    from echo have d: "\<not> nullish (get body ''data'')" "\<not> nullish body"
      using get_JStr_object [of "get body ''data''" "''_id''" pid]
      by (auto simp: nullish_def)
    from entry have k: "pid \<in> fst ` set (entries (posts_data (state w)))"
      by (meson domI domIff map_of_eq_None_iff)
    from echo have i: "to_string (get (get body ''data'') ''_id'') = pid" by simp
    define c' where "c' = (posts_data (state w))
        \<lparr>entries := obj_set (entries (posts_data (state w))) pid (get body ''data'')\<rparr>"
    from assign_by_id_own [OF i k]
    have a: "assign_by_id (posts_data (state w)) (get body ''data'') = c'"
      by (simp add: c'_def)
    define w' where "w' = w\<lparr>calls := calls w @ [?req],
        commits := commits w @ [(MFetchPost, body)],
        state := (state w)\<lparr>posts_data := c'\<rparr>\<rparr>"
    from answer d a have r: "dispatch net (FetchPost pid) w = (Inr body, w')"
      unfolding run
      by (simp add: asyncAndCommit_def axios_def commit_def Let_def fetchPost_mutation_def w'_def)
    have "map fst (entries (posts_data (state w'))) = map fst (entries (posts_data (state w)))"
      using k by (simp add: w'_def c'_def keys_obj_set_own)
    with r show ?thesis
      by (auto simp: w'_def c'_def getCurrentPost_def cache_get_assigned)
  qed
  from issued refreshed show ?thesis by blast
qed

text \<open>After \<^verbatim>\<open>fetchPosts\<close> for \<^verbatim>\<open>c1\<close> the cache holds \<^verbatim>\<open>p1\<close> without content; \<^verbatim>\<open>fetchPost\<close> then
  stores the full post.\<close>

theorem fetchPost_refreshes_stub_witness:
  "map_of (entries (posts_data (state world_a))) ''p1'' = Some post_p1_stub \<and>
   \<not> truthy (get post_p1_stub ''content'') \<and>
   demo_server (calls world_a) (request_of (''/posts/'' @ ''p1'') (''get'', JUndefined) world_a)
     = Inr (envelope post_p1) \<and>
   get (get (envelope post_p1) ''data'') ''_id'' = JStr ''p1'' \<and>
   calls (snd (dispatch demo_server (FetchPost ''p1'') world_a)) =
     calls world_a @ [request_of (''/posts/'' @ ''p1'') (''get'', JUndefined) world_a] \<and>
   fst (dispatch demo_server (FetchPost ''p1'') world_a) = Inr (envelope post_p1) \<and>
   getCurrentPost (state (snd (dispatch demo_server (FetchPost ''p1'') world_a))) ''p1'' = post_p1 \<and>
   get (getCurrentPost (state (snd (dispatch demo_server (FetchPost ''p1'') world_a))) ''p1'')
     ''content'' = JStr ''text''"
proof -
  have entry: "map_of (entries (posts_data (state world_a))) ''p1'' = Some post_p1_stub"
    by (simp add: world_defs example_defs run_defs)
  have empty: "\<not> truthy (get post_p1_stub ''content'')"
    by (simp add: example_defs)
  have answer: "demo_server (calls world_a)
      (request_of (''/posts/'' @ ''p1'') (''get'', JUndefined) world_a) = Inr (envelope post_p1)"
    by (simp add: demo_server_def request_of_def)
  have echo: "get (get (envelope post_p1) ''data'') ''_id'' = JStr ''p1''"
    by (simp add: example_defs)
  have d: "get (envelope post_p1) ''data'' = post_p1" "get post_p1 ''content'' = JStr ''text''"
    by (simp_all add: example_defs)
  note t = fetchPost_refreshes_stub [where net = demo_server, OF entry empty]
  from t have "calls (snd (dispatch demo_server (FetchPost ''p1'') world_a)) =
     calls world_a @ [request_of (''/posts/'' @ ''p1'') (''get'', JUndefined) world_a]"
    by (rule conjunct1)
  moreover from t answer echo
  have "fst (dispatch demo_server (FetchPost ''p1'') world_a) = Inr (envelope post_p1) \<and>
      getCurrentPost (state (snd (dispatch demo_server (FetchPost ''p1'') world_a))) ''p1''
        = get (envelope post_p1) ''data'' \<and>
      get (getCurrentPost (state (snd (dispatch demo_server (FetchPost ''p1'') world_a))) ''p1'')
        ''content'' = get (get (envelope post_p1) ''data'') ''content''"
    by blast
  ultimately show ?thesis using entry empty answer echo d by simp
qed

subsection \<open>C10: what \<^verbatim>\<open>signOut\<close> leaves alone\<close>

text \<open>
  C10. For every starting world, committing \<^verbatim>\<open>signOut\<close> does not throw and leaves the
  column cache and its \<^verbatim>\<open>isLoaded\<close> flag, the post cache and \<^verbatim>\<open>loadedColumns\<close>, the loading
  flag and the error slot unchanged.
\<close>

theorem signOut_frame:
  "columns_data (state (snd (commit MSignOut p w))) = columns_data (state w) \<and>
   columns_isLoaded (state (snd (commit MSignOut p w))) = columns_isLoaded (state w) \<and>
   posts_data (state (snd (commit MSignOut p w))) = posts_data (state w) \<and>
   posts_loadedColumns (state (snd (commit MSignOut p w))) = posts_loadedColumns (state w) \<and>
   loading (state (snd (commit MSignOut p w))) = loading (state w) \<and>
   error (state (snd (commit MSignOut p w))) = error (state w) \<and>
   fst (commit MSignOut p w) = None"
  by (simp add: commit_def signOut_def Let_def)

end
